theory Spec2Isabelle
  imports Complex_Main "HOL-Library.Log_Nat"
begin

section \<open>Data model\<close>

text \<open>
  The game manager (\<^verbatim>\<open>GameManager\<close>) and the strategies (\<^verbatim>\<open>js/strategies.js\<close>) work on
  a \<^verbatim>\<open>Grid\<close> of \<^verbatim>\<open>Tile\<close> objects. A position is the JavaScript object \<^verbatim>\<open>{x, y}\<close>.
  Directions are the numbers 0 (up), 1 (right), 2 (down), 3 (left) of the source.
\<close>

type_synonym position = "int \<times> int"

datatype direction = Up | Right | Down | Left

text \<open>
  Modelled from the spec: the \<^verbatim>\<open>Tile\<close> class (position, value, the saved previous position
  and the merge sources, "zero, or the two tiles merged to produce it"). The tile a cell
  refers to is held by value in the cell; \<^verbatim>\<open>mergedFrom\<close> holds the two source tiles of a
  merge, which are no longer on the grid.
\<close>

datatype tile =
  Tile (tile_x: int) (tile_y: int) (tile_value: int)
       (previousPosition: "position option") (mergedFrom: "(tile \<times> tile) option")

definition newTile :: "position \<Rightarrow> int \<Rightarrow> tile" where
  "newTile p v = Tile (fst p) (snd p) v None None"

definition tile_pos :: "tile \<Rightarrow> position" where
  "tile_pos t = (tile_x t, tile_y t)"

definition savePosition :: "tile \<Rightarrow> tile" where
  "savePosition t =
     Tile (tile_x t) (tile_y t) (tile_value t) (Some (tile_x t, tile_y t)) (mergedFrom t)"

definition updatePosition :: "tile \<Rightarrow> position \<Rightarrow> tile" where
  "updatePosition t p =
     Tile (fst p) (snd p) (tile_value t) (previousPosition t) (mergedFrom t)"

definition clearMergedFrom :: "tile \<Rightarrow> tile" where
  "clearMergedFrom t =
     Tile (tile_x t) (tile_y t) (tile_value t) (previousPosition t) None"

definition setMergedFrom :: "tile \<Rightarrow> tile \<Rightarrow> tile \<Rightarrow> tile" where
  "setMergedFrom t a b =
     Tile (tile_x t) (tile_y t) (tile_value t) (previousPosition t) (Some (a, b))"

text \<open>
  Modelled from the spec: the \<^verbatim>\<open>Grid\<close> class, "size (board dimension), cells: mapping from
  (x,y) to an optional Tile reference", with the operations of section 4.1 of the spec.
  An out-of-bounds query returns "not available"/empty rather than raising.
\<close>

record grid =
  grid_size :: int
  cells :: "position \<Rightarrow> tile option"

definition emptyGrid :: "int \<Rightarrow> grid" where
  "emptyGrid n = \<lparr>grid_size = n, cells = (\<lambda>p. None)\<rparr>"

definition withinBounds :: "grid \<Rightarrow> position \<Rightarrow> bool" where
  "withinBounds g p \<longleftrightarrow>
     fst p \<ge> 0 \<and> fst p < grid_size g \<and> snd p \<ge> 0 \<and> snd p < grid_size g"

definition cellContent :: "grid \<Rightarrow> position \<Rightarrow> tile option" where
  "cellContent g p = (if withinBounds g p then cells g p else None)"

definition cellOccupied :: "grid \<Rightarrow> position \<Rightarrow> bool" where
  "cellOccupied g p \<longleftrightarrow> cellContent g p \<noteq> None"

definition cellAvailable :: "grid \<Rightarrow> position \<Rightarrow> bool" where
  "cellAvailable g p \<longleftrightarrow> \<not> cellOccupied g p"

definition insertTile :: "grid \<Rightarrow> tile \<Rightarrow> grid" where
  "insertTile g t = g\<lparr>cells := (cells g)((tile_x t, tile_y t) := Some t)\<rparr>"

definition removeTile :: "grid \<Rightarrow> tile \<Rightarrow> grid" where
  "removeTile g t = g\<lparr>cells := (cells g)((tile_x t, tile_y t) := None)\<rparr>"

text \<open>The positions \<^verbatim>\<open>eachCell\<close> visits, in its order: x outermost, y innermost.\<close>

definition positionsOf :: "int \<Rightarrow> position list" where
  "positionsOf n = concat (map (\<lambda>x. map (\<lambda>y. (x, y)) [0..n - 1]) [0..n - 1])"

definition eachCell :: "grid \<Rightarrow> (position \<times> tile option) list" where
  "eachCell g = map (\<lambda>p. (p, cells g p)) (positionsOf (grid_size g))"

definition availableCells :: "grid \<Rightarrow> position list" where
  "availableCells g = map fst (filter (\<lambda>(p, t). t = None) (eachCell g))"

definition cellsAvailable :: "grid \<Rightarrow> bool" where
  "cellsAvailable g \<longleftrightarrow> availableCells g \<noteq> []"

datatype error = NoSpaceError

text \<open>
  The random choices of the source (\<^verbatim>\<open>Math.random()\<close>) are explicit arguments: \<open>k\<close> selects
  the empty cell (uniformly in the source), \<open>r\<close> is the number drawn for the value.
\<close>

definition randomAvailableCell :: "nat \<Rightarrow> grid \<Rightarrow> error + position" where
  "randomAvailableCell k g =
     (let cs = availableCells g in
      if cs = [] then Inl NoSpaceError else Inr (cs ! (k mod length cs)))"

text \<open>The value snapshot of a grid: size and, per cell, position and value of its tile.\<close>

record gridState =
  state_size :: int
  state_cells :: "position \<Rightarrow> (position \<times> int) option"

definition serializeTile :: "tile \<Rightarrow> position \<times> int" where
  "serializeTile t = ((tile_x t, tile_y t), tile_value t)"

definition serializeGrid :: "grid \<Rightarrow> gridState" where
  "serializeGrid g =
     \<lparr>state_size = grid_size g,
      state_cells = (\<lambda>p. if withinBounds g p then map_option serializeTile (cells g p) else None)\<rparr>"

section \<open>The game manager\<close>

text \<open>
  The fields of \<^verbatim>\<open>GameManager\<close> that the move engine reads and writes. The storage manager
  and the actuator are outside the repository's core; the model keeps what the manager
  hands to them: the best score, the stored game state, and the list of actuator calls
  (most recent first).
\<close>

record gameState =
  saved_grid :: gridState
  saved_score :: int
  saved_over :: bool
  saved_won :: bool
  saved_keepPlaying :: bool

record actuation =
  shown_grid :: grid
  shown_score :: int
  shown_over :: bool
  shown_won :: bool
  shown_bestScore :: int
  shown_terminated :: bool

record game =
  gm_size :: int
  gm_grid :: grid
  score :: int
  over :: bool
  won :: bool
  keepPlaying :: bool
  bestScore :: int
  storedState :: "gameState option"
  actuations :: "actuation list"

definition isGameTerminated :: "game \<Rightarrow> bool" where
  "isGameTerminated s = (if over s \<or> (won s \<and> \<not> keepPlaying s) then True else False)"

definition addRandomTile :: "nat \<Rightarrow> real \<Rightarrow> game \<Rightarrow> error + game" where
  "addRandomTile k r s =
     (if cellsAvailable (gm_grid s) then
        (let v = (if r < 0.9 then 2 else 4) in
         case randomAvailableCell k (gm_grid s) of
           Inl e \<Rightarrow> Inl e
         | Inr p \<Rightarrow> Inr (s\<lparr>gm_grid := insertTile (gm_grid s) (newTile p v)\<rparr>))
      else Inr s)"

definition serialize :: "game \<Rightarrow> gameState" where
  "serialize s =
     \<lparr>saved_grid = serializeGrid (gm_grid s), saved_score = score s, saved_over = over s,
      saved_won = won s, saved_keepPlaying = keepPlaying s\<rparr>"

definition actuate :: "game \<Rightarrow> game" where
  "actuate s =
     (let s1 = (if bestScore s < score s then s\<lparr>bestScore := score s\<rparr> else s);
          s2 = (if over s1 then s1\<lparr>storedState := None\<rparr>
                else s1\<lparr>storedState := Some (serialize s1)\<rparr>)
      in s2\<lparr>actuations :=
              \<lparr>shown_grid = gm_grid s2, shown_score = score s2, shown_over = over s2,
               shown_won = won s2, shown_bestScore = bestScore s2,
               shown_terminated = isGameTerminated s2\<rparr> # actuations s2\<rparr>)"

text \<open>
  \<^verbatim>\<open>prepareTiles\<close> takes no parameter: it always works on the manager's own grid
  (\<^verbatim>\<open>this.grid\<close>), whatever its caller passes.
\<close>

definition prepareTile :: "tile \<Rightarrow> tile" where
  "prepareTile t = savePosition (clearMergedFrom t)"

definition prepareGrid :: "grid \<Rightarrow> grid" where
  "prepareGrid g =
     g\<lparr>cells := (\<lambda>p. if withinBounds g p then map_option prepareTile (cells g p)
                      else cells g p)\<rparr>"

definition prepareTiles :: "game \<Rightarrow> game" where
  "prepareTiles s = s\<lparr>gm_grid := prepareGrid (gm_grid s)\<rparr>"

definition moveTile :: "grid \<Rightarrow> tile \<Rightarrow> position \<Rightarrow> grid" where
  "moveTile g t p =
     g\<lparr>cells := ((cells g)((tile_x t, tile_y t) := None))(p := Some (updatePosition t p))\<rparr>"

definition getVector :: "direction \<Rightarrow> position" where
  "getVector d = (case d of Up \<Rightarrow> (0, -1) | Right \<Rightarrow> (1, 0) | Down \<Rightarrow> (0, 1) | Left \<Rightarrow> (-1, 0))"

definition buildTraversals :: "int \<Rightarrow> position \<Rightarrow> int list \<times> int list" where
  "buildTraversals n v =
     (let xs = [0..n - 1]; ys = [0..n - 1] in
      (if fst v = 1 then rev xs else xs, if snd v = 1 then rev ys else ys))"

text \<open>The cells in the order the two nested \<^verbatim>\<open>forEach\<close> loops visit them.\<close>

definition traversalCells :: "int list \<times> int list \<Rightarrow> position list" where
  "traversalCells tr = concat (map (\<lambda>x. map (\<lambda>y. (x, y)) (snd tr)) (fst tr))"

text \<open>
  \<^verbatim>\<open>findFarthestPosition(cell, vector)\<close> is the do-while loop of the source; it reads the
  manager's own grid. Every caller passes \<^verbatim>\<open>getVector(direction)\<close>, so the model takes the
  direction. The result is the pair (farthest, next).
\<close>

function findFarthestPosition :: "grid \<Rightarrow> position \<Rightarrow> direction \<Rightarrow> position \<times> position" where
  "findFarthestPosition g previous d =
     (let cell = (fst previous + fst (getVector d), snd previous + snd (getVector d)) in
      if withinBounds g cell \<and> cellAvailable g cell
      then findFarthestPosition g cell d
      else (previous, cell))"
  by pat_completeness auto
termination
  by (relation "measure (\<lambda>(g, p, d).
        nat (case d of Up \<Rightarrow> snd p + 1 | Right \<Rightarrow> grid_size g - fst p
                     | Down \<Rightarrow> grid_size g - snd p | Left \<Rightarrow> fst p + 1))")
     (auto simp: withinBounds_def getVector_def split: direction.splits)

definition positionsEqual :: "position \<Rightarrow> tile \<Rightarrow> bool" where
  "positionsEqual first second \<longleftrightarrow> fst first = tile_x second \<and> snd first = tile_y second"

text \<open>
  One iteration of the inner \<^verbatim>\<open>forEach\<close> of \<^verbatim>\<open>move\<close>: the state is the game together
  with the local flag \<^verbatim>\<open>moved\<close>. \<open>mergeCandidate\<close> is the test
  \<^verbatim>\<open>next && next.value === tile.value && !next.mergedFrom\<close>.
\<close>

definition mergeCandidate :: "tile option \<Rightarrow> tile \<Rightarrow> tile option" where
  "mergeCandidate next t =
     (case next of
        None \<Rightarrow> None
      | Some n \<Rightarrow> if tile_value n = tile_value t \<and> mergedFrom n = None then Some n else None)"

definition moveCell :: "direction \<Rightarrow> position \<Rightarrow> game \<times> bool \<Rightarrow> game \<times> bool" where
  "moveCell d cell sm =
     (let s = fst sm; moved = snd sm in
      case cellContent (gm_grid s) cell of
        None \<Rightarrow> (s, moved)
      | Some t \<Rightarrow>
          (let positions = findFarthestPosition (gm_grid s) cell d;
               next = cellContent (gm_grid s) (snd positions) in
           case mergeCandidate next t of
             Some n \<Rightarrow>
               (let t' = updatePosition t (snd positions);
                    merged = setMergedFrom (newTile (snd positions) (tile_value t * 2)) t' n;
                    g1 = removeTile (insertTile (gm_grid s) merged) t;
                    s1 = s\<lparr>gm_grid := g1, score := score s + tile_value merged\<rparr>;
                    s2 = (if tile_value merged = 2048 then s1\<lparr>won := True\<rparr> else s1)
                in (s2, if \<not> positionsEqual cell t' then True else moved))
           | None \<Rightarrow>
               (let t' = updatePosition t (fst positions);
                    s1 = s\<lparr>gm_grid := moveTile (gm_grid s) t (fst positions)\<rparr>
                in (s1, if \<not> positionsEqual cell t' then True else moved))))"

text \<open>
  The part of \<^verbatim>\<open>move\<close> between the termination check and \<^verbatim>\<open>if (moved)\<close>: prepare the
  tiles, then traverse.
\<close>

definition resolveMove :: "direction \<Rightarrow> game \<Rightarrow> game \<times> bool" where
  "resolveMove d s =
     fold (moveCell d) (traversalCells (buildTraversals (gm_size s) (getVector d)))
       (prepareTiles s, False)"

definition tileMatchesAvailable :: "game \<Rightarrow> bool" where
  "tileMatchesAvailable s =
     list_ex (\<lambda>x. list_ex (\<lambda>y.
        case cellContent (gm_grid s) (x, y) of
          None \<Rightarrow> False
        | Some t \<Rightarrow>
            list_ex (\<lambda>d.
               case cellContent (gm_grid s) (x + fst (getVector d), y + snd (getVector d)) of
                 None \<Rightarrow> False
               | Some other \<Rightarrow> tile_value other = tile_value t)
              [Up, Right, Down, Left])
       [0..gm_size s - 1]) [0..gm_size s - 1]"

definition movesAvailable :: "game \<Rightarrow> bool" where
  "movesAvailable s \<longleftrightarrow> cellsAvailable (gm_grid s) \<or> tileMatchesAvailable s"

definition move :: "nat \<Rightarrow> real \<Rightarrow> direction \<Rightarrow> game \<Rightarrow> error + game" where
  "move k r d s =
     (if isGameTerminated s then Inr s
      else
        (let (s1, moved) = resolveMove d s in
         if moved then
           (case addRandomTile k r s1 of
              Inl e \<Rightarrow> Inl e
            | Inr s2 \<Rightarrow>
                Inr (actuate (if \<not> movesAvailable s2 then s2\<lparr>over := True\<rparr> else s2)))
         else Inr s1))"

text \<open>
  \<^verbatim>\<open>tryMove(direction, grid)\<close>. The flag \<^verbatim>\<open>moved\<close> is only ever set; \<^verbatim>\<open>return true\<close> ends one
  call of the inner callback, not the loops. The calls \<^verbatim>\<open>this.prepareTiles(grid)\<close> and
  \<^verbatim>\<open>this.findFarthestPosition(cell, vector, grid)\<close> pass the grid as an extra argument
  that neither function has a parameter for: both work on the manager's own grid. The
  result is the flag together with the manager after the call.
\<close>

definition tryMoveCell :: "game \<Rightarrow> direction \<Rightarrow> grid \<Rightarrow> position \<Rightarrow> bool \<Rightarrow> bool" where
  "tryMoveCell s d g cell moved =
     (case cellContent g cell of
        None \<Rightarrow> moved
      | Some t \<Rightarrow>
          (let positions = findFarthestPosition (gm_grid s) cell d;
               next = cellContent g (snd positions) in
           if mergeCandidate next t \<noteq> None
           then True
           else if fst (fst positions) \<noteq> fst cell \<or> snd (fst positions) \<noteq> snd cell
           then True
           else moved))"

definition tryMove :: "game \<Rightarrow> direction \<Rightarrow> grid \<Rightarrow> bool \<times> game" where
  "tryMove s d g =
     (let s' = prepareTiles s in
      (fold (tryMoveCell s' d g) (traversalCells (buildTraversals (gm_size s') (getVector d))) False,
       s'))"

text \<open>
  The detached copy the strategies make of a grid: a new \<^verbatim>\<open>Grid\<close> of the manager's size
  whose cells come from \<^verbatim>\<open>grid.serialize().cells\<close>, each a fresh object with the value of
  the live tile and no merge sources.
\<close>

definition copyGrid :: "int \<Rightarrow> grid \<Rightarrow> grid" where
  "copyGrid n g =
     \<lparr>grid_size = n,
      cells = (\<lambda>p. map_option (\<lambda>(q, v). newTile q v) (state_cells (serializeGrid g) p))\<rparr>"

text \<open>
  \<^verbatim>\<open>setup\<close> for a manager of the given size: a stored game is reloaded, otherwise the grid is
  new and \<^verbatim>\<open>addStartTiles\<close> adds \<^verbatim>\<open>startTiles\<close> = 2 random tiles (with the draws \<open>rs\<close>); then
  the actuator is called. Modelled from the spec: \<^verbatim>\<open>new Grid(size, cells)\<close> rebuilds the tiles
  from the snapshot ("fromSerialized").
\<close>

definition fromState :: "gridState \<Rightarrow> grid" where
  "fromState st =
     \<lparr>grid_size = state_size st,
      cells = (\<lambda>p. map_option (\<lambda>(q, v). newTile q v) (state_cells st p))\<rparr>"

fun addStartTiles :: "(nat \<times> real) list \<Rightarrow> game \<Rightarrow> error + game" where
  "addStartTiles [] s = Inr s"
| "addStartTiles ((k, r) # rs) s =
     (case addRandomTile k r s of Inl e \<Rightarrow> Inl e | Inr s' \<Rightarrow> addStartTiles rs s')"

definition setupGame :: "(nat \<times> real) \<times> (nat \<times> real) \<Rightarrow> game \<Rightarrow> error + game" where
  "setupGame rs s =
     (case storedState s of
        Some previousState \<Rightarrow>
          Inr (actuate (s\<lparr>gm_grid := fromState (saved_grid previousState),
                          score := saved_score previousState, over := saved_over previousState,
                          won := saved_won previousState,
                          keepPlaying := saved_keepPlaying previousState\<rparr>))
      | None \<Rightarrow>
          (case addStartTiles [fst rs, snd rs]
                  (s\<lparr>gm_grid := emptyGrid (gm_size s), score := 0, over := False, won := False,
                     keepPlaying := False\<rparr>) of
             Inl e \<Rightarrow> Inl e
           | Inr s' \<Rightarrow> Inr (actuate s')))"

section \<open>Strategies\<close>

text \<open>
  JavaScript numbers are modelled as real numbers (no rounding, no NaN); the two
  infinities, which the searches use as initial bounds, are values of their own.
  \<^verbatim>\<open>Math.log2\<close> is only meant on positive values (every tile the game creates has one).
\<close>

datatype ext = MinusInfinity | Finite real | PlusInfinity

fun ext_less :: "ext \<Rightarrow> ext \<Rightarrow> bool" where
  "ext_less (Finite a) (Finite b) = (a < b)"
| "ext_less MinusInfinity b = (b \<noteq> MinusInfinity)"
| "ext_less a PlusInfinity = (a \<noteq> PlusInfinity)"
| "ext_less a b = False"

definition ext_le :: "ext \<Rightarrow> ext \<Rightarrow> bool" where
  "ext_le a b \<longleftrightarrow> a = b \<or> ext_less a b"

definition ext_max :: "ext \<Rightarrow> ext \<Rightarrow> ext" where
  "ext_max a b = (if ext_less a b then b else a)"

definition ext_min :: "ext \<Rightarrow> ext \<Rightarrow> ext" where
  "ext_min a b = (if ext_less b a then b else a)"

text \<open>The product of a positive finite factor (0.9 or 0.1 in the source) and a number.\<close>

definition ext_scale :: "real \<Rightarrow> ext \<Rightarrow> ext" where
  "ext_scale k a = (case a of Finite x \<Rightarrow> Finite (k * x) | MinusInfinity \<Rightarrow> MinusInfinity
                    | PlusInfinity \<Rightarrow> PlusInfinity)"

definition log2 :: "int \<Rightarrow> real" where
  [code del]: "log2 v = log 2 (real_of_int v)"

text \<open>
  For evaluation, \<^verbatim>\<open>Math.log2\<close> of a power of two is its exponent (see \<open>log2_code\<close>); on
  every other argument it stays the unevaluated constant \<open>log2_other\<close>.
\<close>

definition log2_other :: "int \<Rightarrow> real" where
  [code del]: "log2_other v = log 2 (real_of_int v)"

definition directions :: "direction list" where
  "directions = [Up, Right, Down, Left]"

subsection \<open>NaiveStrategy\<close>

definition NaiveStrategy_evaluatePosition :: "grid \<Rightarrow> int" where
  "NaiveStrategy_evaluatePosition g =
     fold (\<lambda>(p, c) score. case c of None \<Rightarrow> score | Some t \<Rightarrow> score + tile_value t) (eachCell g) 0"

text \<open>
  \<^verbatim>\<open>getNextMove\<close> of \<^verbatim>\<open>NaiveStrategy\<close>: the loop state is \<^verbatim>\<open>bestScore\<close>, \<^verbatim>\<open>bestMove\<close> and the
  manager, which every \<^verbatim>\<open>tryMove\<close> call hands on. The result is the move and the manager
  after the call.
\<close>

definition NaiveStrategy_step :: "direction \<Rightarrow> int \<times> direction \<times> game \<Rightarrow> int \<times> direction \<times> game" where
  "NaiveStrategy_step d st =
     (let bestScore = fst st; bestMove = fst (snd st); s = snd (snd st);
          gridCopy = copyGrid (gm_size s) (gm_grid s);
          r = tryMove s d gridCopy in
      if fst r then
        (let score = NaiveStrategy_evaluatePosition gridCopy in
         if score > bestScore then (score, d, snd r) else (bestScore, bestMove, snd r))
      else (bestScore, bestMove, snd r))"

definition NaiveStrategy_getNextMove :: "game \<Rightarrow> direction \<times> game" where
  "NaiveStrategy_getNextMove s = snd (fold NaiveStrategy_step directions (- 1, Up, s))"

subsection \<open>AdvancedStrategy: expectimax\<close>

definition AdvancedStrategy_SEARCH_DEPTH :: nat where "AdvancedStrategy_SEARCH_DEPTH = 5"

definition snakePattern :: "position list" where
  "snakePattern =
     [(0, 0), (1, 0), (2, 0), (3, 0), (3, 1), (2, 1), (1, 1), (0, 1),
      (0, 2), (1, 2), (2, 2), (3, 2), (3, 3), (2, 3), (1, 3), (0, 3)]"

definition corners :: "position list" where
  "corners = [(0, 0), (0, 3), (3, 0), (3, 3)]"

text \<open>
  The snake loop: the state is \<^verbatim>\<open>snakePatternScore\<close> and \<^verbatim>\<open>lastValue\<close>, which starts at
  \<^verbatim>\<open>Infinity\<close> (\<open>None\<close> here).
\<close>

definition snakeStep :: "grid \<Rightarrow> position \<Rightarrow> real \<times> int option \<Rightarrow> real \<times> int option" where
  "snakeStep g pos st =
     (case cellContent g pos of
        None \<Rightarrow> st
      | Some t \<Rightarrow>
          (if (case snd st of None \<Rightarrow> True | Some lastValue \<Rightarrow> tile_value t \<le> lastValue)
           then fst st + log2 (tile_value t) * 1.5 else fst st,
           Some (tile_value t)))"

text \<open>
  The loop over the cells and their right and bottom neighbours: the state is
  \<^verbatim>\<open>smoothness\<close> and \<^verbatim>\<open>monotonicity\<close>.
\<close>

definition neighbourStep :: "grid \<Rightarrow> position \<Rightarrow> real \<Rightarrow> int \<times> int \<Rightarrow> real \<times> real \<Rightarrow> real \<times> real" where
  "neighbourStep g p currentValue dxy st =
     (if fst p + fst dxy < 4 \<and> snd p + snd dxy < 4 then
        (case cellContent g (fst p + fst dxy, snd p + snd dxy) of
           None \<Rightarrow> st
         | Some neighborTile \<Rightarrow>
             (let neighborValue = log2 (tile_value neighborTile);
                  smoothness = fst st - \<bar>currentValue - neighborValue\<bar> in
              (smoothness,
               if currentValue > neighborValue then snd st + (currentValue - neighborValue)
               else snd st)))
      else st)"

definition smoothStep :: "grid \<Rightarrow> position \<Rightarrow> real \<times> real \<Rightarrow> real \<times> real" where
  "smoothStep g p st =
     (case cellContent g p of
        None \<Rightarrow> st
      | Some currentTile \<Rightarrow>
          fold (neighbourStep g p (log2 (tile_value currentTile))) [(1, 0), (0, 1)] st)"

definition AdvancedStrategy_evaluatePosition :: "grid \<Rightarrow> real" where
  "AdvancedStrategy_evaluatePosition g =
     (let em = fold (\<lambda>(p, c) (emptyCells, maxTile).
                       case c of Some t \<Rightarrow> (emptyCells, max maxTile (tile_value t))
                               | None \<Rightarrow> (emptyCells + 1, maxTile)) (eachCell g) (0::int, 0::int);
          emptyCells = fst em; maxTile = snd em;
          snakePatternScore = fst (fold (snakeStep g) snakePattern (0, None));
          sm = fold (smoothStep g) (positionsOf 4) (0, 0);
          smoothness = fst sm; monotonicity = snd sm;
          maxTileInCorner =
            list_ex (\<lambda>corner. case cellContent g corner of None \<Rightarrow> False
                               | Some t \<Rightarrow> tile_value t = maxTile) corners;
          score = real_of_int emptyCells * 12000 + smoothness * 60 + monotonicity * 80
                  + (if maxTileInCorner then 25000 else 0) + snakePatternScore * 100
      in if \<not> maxTileInCorner then score - log2 maxTile * 1000 else score)"

text \<open>
  \<^verbatim>\<open>expectimax(grid, depth, isMax)\<close>, by recursion on the depth. \<^verbatim>\<open>tryMove\<close> is called on the
  manager; what it does to the manager (\<^verbatim>\<open>prepareTiles\<close>, again and again) does not change
  what a later \<^verbatim>\<open>tryMove\<close> returns (lemma \<open>tryMove_after_tryMove\<close> below), so the search is
  a function of the manager it starts with. \<open>gridWith n g c v\<close> is \<^verbatim>\<open>gridWith2\<close> and \<^verbatim>\<open>gridWith4\<close> of the source.
\<close>

definition gridWith :: "int \<Rightarrow> grid \<Rightarrow> position \<Rightarrow> int \<Rightarrow> grid" where
  "gridWith n g c v = insertTile (copyGrid n g) (newTile c v)"

primrec expectimax :: "nat \<Rightarrow> game \<Rightarrow> grid \<Rightarrow> bool \<Rightarrow> real" where
  "expectimax 0 s g isMax = AdvancedStrategy_evaluatePosition g"
| "expectimax (Suc depth) s g isMax =
     (if isMax then
        (let bestScore =
               fold (\<lambda>d bestScore.
                       let gridCopy = copyGrid (gm_size s) g in
                       if fst (tryMove s d gridCopy)
                       then ext_max bestScore (Finite (expectimax depth s gridCopy False))
                       else bestScore) directions MinusInfinity
         in case bestScore of Finite b \<Rightarrow> b | _ \<Rightarrow> AdvancedStrategy_evaluatePosition g)
      else
        (let emptyCells = availableCells g in
         if length emptyCells = 0 then AdvancedStrategy_evaluatePosition g
         else
           (let sc = fold (\<lambda>c (score, count).
                             (score + 0.9 * expectimax depth s (gridWith (gm_size s) g c 2) True
                                    + 0.1 * expectimax depth s (gridWith (gm_size s) g c 4) True,
                              count + 1)) emptyCells (0, 0::nat)
            in fst sc / real (snd sc))))"

definition AdvancedStrategy_getNextMove :: "nat \<Rightarrow> game \<Rightarrow> direction" where
  "AdvancedStrategy_getNextMove depth s =
     snd (fold (\<lambda>d (bestScore, bestMove).
                  let gridCopy = copyGrid (gm_size s) (gm_grid s) in
                  if fst (tryMove s d gridCopy) then
                    (let score = Finite (expectimax depth s gridCopy False) in
                     if ext_less bestScore score then (score, d) else (bestScore, bestMove))
                  else (bestScore, bestMove)) directions (MinusInfinity, Up))"

subsection \<open>MasterStrategy: alpha-beta\<close>

definition MasterStrategy_SEARCH_DEPTH :: nat where "MasterStrategy_SEARCH_DEPTH = 4"

definition EARLY_GAME_WEIGHTS :: "int list list" where
  "EARLY_GAME_WEIGHTS =
     [[2048, 1024, 512, 256], [128, 256, 384, 512], [64, 128, 256, 384], [32, 64, 128, 256]]"

definition LATE_GAME_WEIGHTS :: "int list list" where
  "LATE_GAME_WEIGHTS =
     [[65536, 32768, 16384, 8192], [32768, 16384, 8192, 4096], [16384, 8192, 4096, 2048],
      [8192, 4096, 2048, 1024]]"

definition isValidChain :: "int \<Rightarrow> int \<Rightarrow> bool" where
  "isValidChain value1 value2 \<longleftrightarrow> value1 = value2 * 2 \<or> value2 = value1 * 2"

definition getMaxTile :: "grid \<Rightarrow> int" where
  "getMaxTile g =
     fold (\<lambda>(p, c) mx. case c of None \<Rightarrow> mx | Some t \<Rightarrow> if tile_value t > mx then tile_value t else mx)
       (eachCell g) 0"

text \<open>
  The state of the main loop of \<^verbatim>\<open>evaluatePosition\<close>: \<^verbatim>\<open>score\<close>, \<^verbatim>\<open>emptyCells\<close>,
  \<^verbatim>\<open>chainScore\<close>, \<^verbatim>\<open>edgeScore\<close>, \<^verbatim>\<open>maxTile\<close> and \<^verbatim>\<open>maxTilePos\<close>. The loop runs over x and y
  from 0 to 3, whatever the size of the grid.
\<close>

record masterAcc =
  acc_score :: real
  acc_emptyCells :: int
  acc_chainScore :: real
  acc_edgeScore :: int
  acc_maxTile :: int
  acc_maxTilePos :: "position option"

definition masterCell :: "grid \<Rightarrow> int list list \<Rightarrow> position \<Rightarrow> masterAcc \<Rightarrow> masterAcc" where
  "masterCell g weights p a =
     (case cellContent g p of
        None \<Rightarrow> a\<lparr>acc_emptyCells := acc_emptyCells a + 1\<rparr>
      | Some t \<Rightarrow>
          (let x = fst p; y = snd p;
               a1 = (if tile_value t > acc_maxTile a
                     then a\<lparr>acc_maxTile := tile_value t, acc_maxTilePos := Some p\<rparr> else a);
               a2 = a1\<lparr>acc_score := acc_score a1
                          + real_of_int (tile_value t * (weights ! nat x ! nat y))\<rparr>;
               a3 = (if x < 3 then
                       (case cellContent g (x + 1, y) of
                          None \<Rightarrow> a2
                        | Some rightTile \<Rightarrow>
                            if isValidChain (tile_value t) (tile_value rightTile)
                            then a2\<lparr>acc_chainScore := acc_chainScore a2 + log2 (tile_value t)\<rparr>
                            else a2)
                     else a2);
               a4 = (if y < 3 then
                       (case cellContent g (x, y + 1) of
                          None \<Rightarrow> a3
                        | Some bottomTile \<Rightarrow>
                            if isValidChain (tile_value t) (tile_value bottomTile)
                            then a3\<lparr>acc_chainScore := acc_chainScore a3 + log2 (tile_value t)\<rparr>
                            else a3)
                     else a3)
           in if x = 0 \<or> x = 3 \<or> y = 0 \<or> y = 3
              then a4\<lparr>acc_edgeScore := acc_edgeScore a4 + tile_value t\<rparr> else a4))"

definition MasterStrategy_evaluatePosition :: "grid \<Rightarrow> bool \<Rightarrow> real" where
  "MasterStrategy_evaluatePosition g isLateGame =
     (let weights = (if isLateGame then LATE_GAME_WEIGHTS else EARLY_GAME_WEIGHTS);
          a = fold (masterCell g weights) (positionsOf 4)
                \<lparr>acc_score = 0, acc_emptyCells = 0, acc_chainScore = 0, acc_edgeScore = 0,
                 acc_maxTile = 0, acc_maxTilePos = None\<rparr>;
          gradientScore = (0::real);
          cornerScore =
            (case acc_maxTilePos a of
               None \<Rightarrow> 0
             | Some mp \<Rightarrow> if mp = (0, 0) \<or> mp = (0, 3) \<or> mp = (3, 0) \<or> mp = (3, 3)
                          then acc_maxTile a * 2 else 0);
          score = acc_score a
                  + (real_of_int (acc_emptyCells a) * 10000 + acc_chainScore a * 15000
                     + real_of_int cornerScore * 30000 + real_of_int (acc_edgeScore a) * 2000
                     + gradientScore * 5000)
      in if isLateGame \<and> cornerScore = 0 then score - real_of_int (acc_maxTile a * 30000) else score)"

text \<open>
  \<^verbatim>\<open>sampleCells\<close> shuffles with \<^verbatim>\<open>Math.random\<close> and keeps the first \<^verbatim>\<open>count\<close> cells. The random
  source is a parameter: the \<open>i\<close>-th call of \<^verbatim>\<open>sampleCells\<close> in a run gets the order
  \<open>rnd i cells\<close>; the searches hand the number of calls made so far along.
\<close>

type_synonym shuffle = "nat \<Rightarrow> position list \<Rightarrow> position list"

definition sampleCells :: "shuffle \<Rightarrow> nat \<Rightarrow> position list \<Rightarrow> nat \<Rightarrow> position list" where
  "sampleCells rnd i cs count = take count (rnd i cs)"

text \<open>
  The two loops of \<^verbatim>\<open>alphaBeta\<close> take the recursive call (one level less deep) as the
  argument \<open>rec\<close>; \<^verbatim>\<open>break\<close> ends the loop with the current value.
\<close>

type_synonym search = "grid \<Rightarrow> ext \<Rightarrow> ext \<Rightarrow> bool \<Rightarrow> bool \<Rightarrow> nat \<Rightarrow> ext \<times> nat"

fun maxLoop :: "search \<Rightarrow> game \<Rightarrow> grid \<Rightarrow> bool \<Rightarrow> direction list \<Rightarrow> ext \<Rightarrow> ext \<Rightarrow> ext \<Rightarrow> nat \<Rightarrow> ext \<times> nat" where
  "maxLoop rec s g isLateGame [] val alpha beta i = (val, i)"
| "maxLoop rec s g isLateGame (d # ds) val alpha beta i =
     (let gridCopy = copyGrid (gm_size s) g in
      if fst (tryMove s d gridCopy) then
        (let r = rec gridCopy alpha beta False isLateGame i;
             val' = ext_max val (fst r);
             alpha' = ext_max alpha val'
         in if ext_le beta alpha' then (val', snd r)
            else maxLoop rec s g isLateGame ds val' alpha' beta (snd r))
      else maxLoop rec s g isLateGame ds val alpha beta i)"

fun minLoop :: "search \<Rightarrow> game \<Rightarrow> grid \<Rightarrow> bool \<Rightarrow> position list \<Rightarrow> ext \<Rightarrow> ext \<Rightarrow> ext \<Rightarrow> nat \<Rightarrow> ext \<times> nat" where
  "minLoop rec s g isLateGame [] val alpha beta i = (val, i)"
| "minLoop rec s g isLateGame (c # cs) val alpha beta i =
     (let r2 = rec (gridWith (gm_size s) g c 2) alpha beta True isLateGame i;
          val2 = ext_min val (ext_scale 0.9 (fst r2));
          r4 = rec (gridWith (gm_size s) g c 4) alpha beta True isLateGame (snd r2);
          val4 = ext_min val2 (ext_scale 0.1 (fst r4));
          beta' = ext_min beta val4
      in if ext_le beta' alpha then (val4, snd r4)
         else minLoop rec s g isLateGame cs val4 alpha beta' (snd r4))"

primrec alphaBeta :: "nat \<Rightarrow> shuffle \<Rightarrow> game \<Rightarrow> search" where
  "alphaBeta 0 rnd s g alpha beta isMax isLateGame i =
     (Finite (MasterStrategy_evaluatePosition g isLateGame), i)"
| "alphaBeta (Suc depth) rnd s g alpha beta isMax isLateGame i =
     (if isMax then
        (let r = maxLoop (alphaBeta depth rnd s) s g isLateGame directions MinusInfinity alpha beta i
         in (if fst r = MinusInfinity then Finite (MasterStrategy_evaluatePosition g isLateGame)
             else fst r, snd r))
      else
        (let emptyCells = availableCells g in
         if length emptyCells = 0 then (Finite (MasterStrategy_evaluatePosition g isLateGame), i)
         else
           (let sampleSize = min 3 (length emptyCells);
                sampledCells = sampleCells rnd i emptyCells sampleSize
            in minLoop (alphaBeta depth rnd s) s g isLateGame sampledCells PlusInfinity alpha beta (i + 1))))"

text \<open>
  \<^verbatim>\<open>getNextMove\<close> of \<^verbatim>\<open>MasterStrategy\<close>: the loop state is \<^verbatim>\<open>bestScore\<close>, \<^verbatim>\<open>bestMove\<close> and the
  number of \<^verbatim>\<open>sampleCells\<close> calls made.
\<close>

definition MasterStrategy_step :: "nat \<Rightarrow> shuffle \<Rightarrow> game \<Rightarrow> direction \<Rightarrow> ext \<times> direction \<times> nat \<Rightarrow> ext \<times> direction \<times> nat" where
  "MasterStrategy_step depth rnd s d st =
     (let bestScore = fst st; bestMove = fst (snd st); i = snd (snd st);
          isLateGame = (getMaxTile (gm_grid s) \<ge> 1024);
          gridCopy = copyGrid (gm_size s) (gm_grid s) in
      if fst (tryMove s d gridCopy) then
        (let r = alphaBeta depth rnd s gridCopy MinusInfinity PlusInfinity False isLateGame i in
         if ext_less bestScore (fst r) then (fst r, d, snd r) else (bestScore, bestMove, snd r))
      else (bestScore, bestMove, i))"

definition MasterStrategy_getNextMove :: "nat \<Rightarrow> shuffle \<Rightarrow> game \<Rightarrow> direction" where
  "MasterStrategy_getNextMove depth rnd s =
     fst (snd (fold (MasterStrategy_step depth rnd s) directions (MinusInfinity, Up, 0)))"

section \<open>Boards for the examples\<close>

definition gridOf :: "int \<Rightarrow> (position \<times> int) list \<Rightarrow> grid" where
  "gridOf n ts = \<lparr>grid_size = n, cells = map_of (map (\<lambda>(p, v). (p, newTile p v)) ts)\<rparr>"

definition gameOn :: "grid \<Rightarrow> game" where
  "gameOn g =
     \<lparr>gm_size = grid_size g, gm_grid = g, score = 0, over = False, won = False,
      keepPlaying = False, bestScore = 0, storedState = None, actuations = []\<rparr>"

text \<open>
  A board of the usual size with three empty cells, and the same board with the last row
  filled, on which no move is possible.
\<close>

definition exampleBoard :: grid where
  "exampleBoard =
     gridOf 4 [((0, 0), 64), ((1, 0), 32), ((2, 0), 16), ((3, 0), 8),
               ((0, 1), 2), ((1, 1), 4), ((2, 1), 8), ((3, 1), 4),
               ((0, 2), 4), ((1, 2), 2), ((2, 2), 4), ((3, 2), 2),
               ((0, 3), 2)]"

definition fullBoard :: grid where
  "fullBoard =
     gridOf 4 [((0, 0), 64), ((1, 0), 32), ((2, 0), 16), ((3, 0), 8),
               ((0, 1), 2), ((1, 1), 4), ((2, 1), 8), ((3, 1), 4),
               ((0, 2), 4), ((1, 2), 2), ((2, 2), 4), ((3, 2), 2),
               ((0, 3), 2), ((1, 3), 4), ((2, 3), 2), ((3, 3), 4)]"



text \<open>The occupied cells of a grid with their values, in the order of \<^verbatim>\<open>eachCell\<close>.\<close>

definition cellValues :: "grid \<Rightarrow> (position \<times> int) list" where
  "cellValues g =
     concat (map (\<lambda>p. case cellContent g p of None \<Rightarrow> [] | Some t \<Rightarrow> [(p, tile_value t)])
               (positionsOf (grid_size g)))"

section \<open>Vocabulary of the properties\<close>

text \<open>
  \<open>ahead d p q\<close>: the cell \<open>q\<close> lies strictly ahead of \<open>p\<close> in the direction of travel.
  \<open>tilesPlaced\<close>: every tile of the grid records the cell that holds it (the data model's
  invariant; it holds of every grid the manager builds). \<open>valueAt\<close> is what a cell shows:
  empty, or the value of its tile. \<open>mergedSum\<close> adds the values of the tiles that carry
  merge sources, the tiles a move has created by merging. \<open>potential\<close> adds, over the
  occupied cells, the distance to the wall the tiles travel to; it is used to show that a
  move that moves a tile changes the board.
\<close>

definition ahead :: "direction \<Rightarrow> position \<Rightarrow> position \<Rightarrow> bool" where
  "ahead d p q \<longleftrightarrow>
     (case d of
        Up \<Rightarrow> fst q = fst p \<and> snd q < snd p
      | Right \<Rightarrow> snd q = snd p \<and> fst p < fst q
      | Down \<Rightarrow> fst q = fst p \<and> snd p < snd q
      | Left \<Rightarrow> snd q = snd p \<and> fst q < fst p)"

definition mergedTile :: "tile \<Rightarrow> position \<Rightarrow> tile \<Rightarrow> tile" where
  "mergedTile t n u = setMergedFrom (newTile n (tile_value t * 2)) (updatePosition t n) u"

definition unmergedAt :: "position list \<Rightarrow> grid \<Rightarrow> bool" where
  "unmergedAt ps g \<longleftrightarrow> (\<forall>p \<in> set ps. \<forall>t. cellContent g p = Some t \<longrightarrow> mergedFrom t = None)"

definition mergesFlat :: "grid \<Rightarrow> bool" where
  "mergesFlat g \<longleftrightarrow>
     (\<forall>p t a b. cellContent g p = Some t \<and> mergedFrom t = Some (a, b) \<longrightarrow>
        mergedFrom a = None \<and> mergedFrom b = None \<and> tile_value a = tile_value b \<and>
        tile_value t = 2 * tile_value a)"

definition tilesPlaced :: "grid \<Rightarrow> bool" where
  "tilesPlaced g =
     list_all (\<lambda>p. case cells g p of None \<Rightarrow> True | Some t \<Rightarrow> tile_pos t = p)
       (positionsOf (grid_size g))"

definition valueAt :: "grid \<Rightarrow> position \<Rightarrow> int option" where
  "valueAt g p = map_option tile_value (cellContent g p)"

definition mergedValue :: "tile option \<Rightarrow> int" where
  "mergedValue c = (case c of None \<Rightarrow> 0 | Some t \<Rightarrow> if mergedFrom t = None then 0 else tile_value t)"

definition mergedSum :: "grid \<Rightarrow> int" where
  "mergedSum g = sum_list (map (\<lambda>p. mergedValue (cells g p)) (positionsOf (grid_size g)))"

definition distToWall :: "direction \<Rightarrow> int \<Rightarrow> position \<Rightarrow> int" where
  "distToWall d n p =
     (case d of Up \<Rightarrow> snd p + 1 | Right \<Rightarrow> n - fst p | Down \<Rightarrow> n - snd p | Left \<Rightarrow> fst p + 1)"

definition occWeight :: "direction \<Rightarrow> int \<Rightarrow> position \<Rightarrow> tile option \<Rightarrow> int" where
  "occWeight d n p c = (if c = None then 0 else distToWall d n p)"

definition potential :: "direction \<Rightarrow> grid \<Rightarrow> int" where
  "potential d g = (\<Sum>p \<in> {p. withinBounds g p}. occWeight d (grid_size g) p (cells g p))"

definition sameFrame :: "game \<Rightarrow> game \<Rightarrow> bool" where
  "sameFrame s s0 \<longleftrightarrow>
     gm_size s = gm_size s0 \<and> over s = over s0 \<and> keepPlaying s = keepPlaying s0 \<and>
     bestScore s = bestScore s0 \<and> storedState s = storedState s0 \<and>
     actuations s = actuations s0 \<and> grid_size (gm_grid s) = grid_size (gm_grid s0)"

definition traversalInv :: "direction \<Rightarrow> game \<Rightarrow> position list \<Rightarrow> game \<times> bool \<Rightarrow> bool" where
  "traversalInv d s0 rest sm \<longleftrightarrow>
     tilesPlaced (gm_grid (fst sm)) \<and> unmergedAt rest (gm_grid (fst sm)) \<and>
     sameFrame (fst sm) s0 \<and>
     score (fst sm) = score s0 + mergedSum (gm_grid (fst sm)) \<and>
     (won s0 \<longrightarrow> won (fst sm)) \<and>
     (\<not> snd sm \<longrightarrow> fst sm = s0) \<and>
     (snd sm \<longrightarrow> potential d (gm_grid (fst sm)) < potential d (gm_grid s0) \<and>
        (\<exists>p. withinBounds (gm_grid (fst sm)) p \<and> cells (gm_grid (fst sm)) p = None)) \<and>
     potential d (gm_grid (fst sm)) \<le> potential d (gm_grid s0)"

text \<open>
  \<open>boardFull\<close>: no cell within bounds is empty. \<open>adjacentEqualPair\<close>: two occupied cells at
  distance 1 hold equal values. \<open>playMoves\<close> runs the moves the input manager delivers, each
  with its random draws. \<open>spawned\<close> and \<open>settled\<close> are the two steps of \<^verbatim>\<open>move\<close> after an
  accepted traversal: the new tile and the game-over test. \<open>mergedBoard\<close> is the game after
  the row 2, 2 has been moved left and a 2 has been spawned at (1,0). \<open>probesLegal\<close> is
  the test the strategies make at the top level; \<open>changesBoard\<close> is the glossary's legal
  move: resolving it changes the occupancy or the value of a cell. \<open>firstLegal\<close> is the
  first direction, in the order up, right, down, left, that passes a test, and up if none
  does.
\<close>

definition boardFull :: "grid \<Rightarrow> bool" where
  "boardFull g \<longleftrightarrow> (\<forall>p. withinBounds g p \<longrightarrow> cells g p \<noteq> None)"

definition adjacentEqualPair :: "grid \<Rightarrow> bool" where
  "adjacentEqualPair g \<longleftrightarrow>
     (\<exists>p q t u. \<bar>fst p - fst q\<bar> + \<bar>snd p - snd q\<bar> = 1 \<and>
        cellContent g p = Some t \<and> cellContent g q = Some u \<and> tile_value t = tile_value u)"

definition tilesNonneg :: "grid \<Rightarrow> bool" where
  "tilesNonneg g =
     list_all (\<lambda>p. case cells g p of None \<Rightarrow> True | Some t \<Rightarrow> 0 \<le> tile_value t)
       (positionsOf (grid_size g))"

fun playMoves :: "(nat \<times> real \<times> direction) list \<Rightarrow> game \<Rightarrow> error + game" where
  "playMoves [] s = Inr s"
| "playMoves ((k, r, d) # ms) s =
     (case move k r d s of Inl e \<Rightarrow> Inl e | Inr s' \<Rightarrow> playMoves ms s')"

definition spawned :: "game \<Rightarrow> position \<Rightarrow> int \<Rightarrow> game" where
  "spawned s p v = s\<lparr>gm_grid := insertTile (gm_grid s) (newTile p v)\<rparr>"

definition settled :: "game \<Rightarrow> game" where
  "settled s = (if \<not> movesAvailable s then s\<lparr>over := True\<rparr> else s)"

definition mergedBoard :: game where
  "mergedBoard =
     (case move 3 0 Left (gameOn (gridOf 4 [((0, 0), 2), ((1, 0), 2)])) of
        Inr s \<Rightarrow> s | Inl e \<Rightarrow> gameOn (emptyGrid 4))"

definition probesLegal :: "game \<Rightarrow> direction \<Rightarrow> bool" where
  "probesLegal s d = fst (tryMove s d (copyGrid (gm_size s) (gm_grid s)))"

definition changesBoard :: "direction \<Rightarrow> game \<Rightarrow> bool" where
  "changesBoard d s \<longleftrightarrow>
     (\<exists>p. valueAt (gm_grid (fst (resolveMove d s))) p \<noteq> valueAt (gm_grid s) p)"

definition firstLegal :: "(direction \<Rightarrow> bool) \<Rightarrow> direction" where
  "firstLegal legal = (case find legal directions of None \<Rightarrow> Up | Some d \<Rightarrow> d)"

text \<open>What holds of the manager in every game that starts with a new grid.\<close>

definition gameInvariant :: "game \<Rightarrow> bool" where
  "gameInvariant s \<longleftrightarrow>
     gm_size s = grid_size (gm_grid s) \<and> tilesPlaced (gm_grid s) \<and> tilesNonneg (gm_grid s)"



section \<open>Facts about the move engine\<close>

declare findFarthestPosition.simps [simp del]

lemma ahead_step: "ahead d p (fst p + fst (getVector d), snd p + snd (getVector d))"
  by (cases d) (simp_all add: ahead_def getVector_def)

lemma ahead_trans: "ahead d p q \<Longrightarrow> ahead d q r \<Longrightarrow> ahead d p r"
  by (cases d) (auto simp: ahead_def)

lemma ahead_neq: "ahead d p q \<Longrightarrow> p \<noteq> q"
  by (cases d) (auto simp: ahead_def)

lemma ffp_unfold:
  "findFarthestPosition g p d =
     (if withinBounds g (fst p + fst (getVector d), snd p + snd (getVector d)) \<and>
         cellAvailable g (fst p + fst (getVector d), snd p + snd (getVector d))
      then findFarthestPosition g (fst p + fst (getVector d), snd p + snd (getVector d)) d
      else (p, (fst p + fst (getVector d), snd p + snd (getVector d))))"
  by (subst findFarthestPosition.simps) (simp add: Let_def)

lemma ffp_props:
  "findFarthestPosition g p d = (f, n) \<Longrightarrow>
     n = (fst f + fst (getVector d), snd f + snd (getVector d)) \<and>
     \<not> (withinBounds g n \<and> cellAvailable g n) \<and>
     (f = p \<or> (ahead d p f \<and> withinBounds g f \<and> cellAvailable g f))"
proof (induction g p d rule: findFarthestPosition.induct)
  case (1 g previous d)
  define cell where "cell = (fst previous + fst (getVector d), snd previous + snd (getVector d))"
  have unf: "findFarthestPosition g previous d =
     (if withinBounds g cell \<and> cellAvailable g cell then findFarthestPosition g cell d
      else (previous, cell))"
    unfolding cell_def by (rule ffp_unfold)
  show ?case
  proof (cases "withinBounds g cell \<and> cellAvailable g cell")
    case True
    with "1.prems" unf have r: "findFarthestPosition g cell d = (f, n)"
      by simp
    have ih0: "n = (fst f + fst (getVector d), snd f + snd (getVector d)) \<and>
     \<not> (withinBounds g n \<and> cellAvailable g n) \<and>
     (f = cell \<or> (ahead d cell f \<and> withinBounds g f \<and> cellAvailable g f))"
      using "1.IH" [of cell] True r unfolding cell_def by blast
    have st: "ahead d previous cell"
      unfolding cell_def by (rule ahead_step)
    have "ahead d previous f \<and> withinBounds g f \<and> cellAvailable g f"
    proof (cases "f = cell")
      case True
      with st \<open>withinBounds g cell \<and> cellAvailable g cell\<close> show ?thesis by simp
    next
      case False
      with ih0 have "ahead d cell f \<and> withinBounds g f \<and> cellAvailable g f" by blast
      with st show ?thesis using ahead_trans by blast
    qed
    with ih0 show ?thesis by blast
  next
    case False
    with "1.prems" unf have "f = previous" "n = cell"
      by simp_all
    with False show ?thesis unfolding cell_def by simp
  qed
qed

lemma ffp_next_ahead:
  assumes "findFarthestPosition g p d = (f, n)"
  shows "ahead d p n"
proof -
  from ffp_props [OF assms] have n: "n = (fst f + fst (getVector d), snd f + snd (getVector d))"
    and f: "f = p \<or> ahead d p f" by auto
  from n have "ahead d f n" using ahead_step [of d f] by simp
  with f show ?thesis using ahead_trans by blast
qed

text \<open>The traversal never comes back to a cell ahead of one it has visited.\<close>

lemma sorted_wrt_concat_map:
  assumes "\<And>x. x \<in> set xs \<Longrightarrow> sorted_wrt R (f x)"
    and "sorted_wrt (\<lambda>x x'. \<forall>a \<in> set (f x). \<forall>b \<in> set (f x'). R a b) xs"
  shows "sorted_wrt R (concat (map f xs))"
  using assms by (induction xs) (auto simp: sorted_wrt_append)

lemma sorted_wrt_upto_less: "sorted_wrt (<) [i..j::int]"
  using sorted_upto distinct_upto strict_sorted_iff by blast

lemma sorted_wrt_rev_upto: "sorted_wrt (>) (rev [i..j::int])"
  by (simp add: sorted_wrt_rev sorted_wrt_upto_less)

lemma traversal_order:
  "sorted_wrt (\<lambda>a b. \<not> ahead d a b)
     (traversalCells (buildTraversals n (getVector d)))"
proof -
  let ?xs = "fst (buildTraversals n (getVector d))"
  let ?ys = "snd (buildTraversals n (getVector d))"
  have xs: "sorted_wrt (if d = Right then (>) else (<)) ?xs"
    by (cases d) (simp_all add: buildTraversals_def getVector_def sorted_wrt_upto_less sorted_wrt_rev_upto Let_def)
  have ys: "sorted_wrt (if d = Down then (>) else (<)) ?ys"
    by (cases d) (simp_all add: buildTraversals_def getVector_def sorted_wrt_upto_less sorted_wrt_rev_upto Let_def)
  have inner: "sorted_wrt (\<lambda>a b. \<not> ahead d a b) (map (\<lambda>y. (x, y)) ?ys)" for x
    using ys by (cases d) (auto simp: sorted_wrt_map ahead_def elim!: sorted_wrt_mono_rel [rotated])
  have outer: "sorted_wrt (\<lambda>x x'. \<forall>a \<in> set (map (\<lambda>y. (x, y)) ?ys). \<forall>b \<in> set (map (\<lambda>y. (x', y)) ?ys). \<not> ahead d a b) ?xs"
    using xs by (cases d) (auto simp: ahead_def elim!: sorted_wrt_mono_rel [rotated])
  show ?thesis
    unfolding traversalCells_def
    by (rule sorted_wrt_concat_map) (use inner outer in auto)
qed

lemma mergeCandidate_Some:
  "mergeCandidate x t = Some u \<Longrightarrow> x = Some u \<and> tile_value u = tile_value t \<and> mergedFrom u = None"
  by (auto simp: mergeCandidate_def split: option.splits if_splits)

lemma mergedTile_sel [simp]:
  "tile_x (mergedTile t n u) = fst n" "tile_y (mergedTile t n u) = snd n"
  "tile_value (mergedTile t n u) = tile_value t * 2"
  "mergedFrom (mergedTile t n u) = Some (updatePosition t n, u)"
  by (simp_all add: mergedTile_def setMergedFrom_def newTile_def)

lemma updatePosition_sel [simp]:
  "tile_x (updatePosition t p) = fst p" "tile_y (updatePosition t p) = snd p"
  "tile_value (updatePosition t p) = tile_value t"
  "mergedFrom (updatePosition t p) = mergedFrom t"
  "previousPosition (updatePosition t p) = previousPosition t"
  by (simp_all add: updatePosition_def)

lemma positionsEqual_updatePosition [simp]:
  "positionsEqual c (updatePosition t p) \<longleftrightarrow> c = p"
  by (auto simp: positionsEqual_def prod_eq_iff)

lemma moveCell_None:
  "cellContent (gm_grid s) c = None \<Longrightarrow> moveCell d c (s, m) = (s, m)"
  by (simp add: moveCell_def)

lemma moveCell_merge:
  assumes c: "cellContent (gm_grid s) c = Some t"
    and p: "findFarthestPosition (gm_grid s) c d = (f, n)"
    and u: "mergeCandidate (cellContent (gm_grid s) n) t = Some u"
  shows "moveCell d c (s, m) =
     (s\<lparr>gm_grid := removeTile (insertTile (gm_grid s) (mergedTile t n u)) t,
        score := score s + tile_value t * 2,
        won := (won s \<or> tile_value t * 2 = 2048)\<rparr>, True)"
proof -
  have "c \<noteq> n" using ffp_next_ahead [OF p] ahead_neq by blast
  then show ?thesis
    using c p u by (auto simp: moveCell_def Let_def mergedTile_def setMergedFrom_def newTile_def)
qed

lemma moveCell_slide:
  assumes c: "cellContent (gm_grid s) c = Some t"
    and p: "findFarthestPosition (gm_grid s) c d = (f, n)"
    and u: "mergeCandidate (cellContent (gm_grid s) n) t = None"
  shows "moveCell d c (s, m) = (s\<lparr>gm_grid := moveTile (gm_grid s) t f\<rparr>, m \<or> f \<noteq> c)"
  using c p u by (auto simp: moveCell_def Let_def)

lemma grid_size_upd [simp]:
  "grid_size (insertTile g t) = grid_size g"
  "grid_size (removeTile g t) = grid_size g"
  "grid_size (moveTile g t p) = grid_size g"
  "grid_size (prepareGrid g) = grid_size g"
  by (simp_all add: insertTile_def removeTile_def moveTile_def prepareGrid_def)

lemma withinBounds_upd [simp]:
  "withinBounds (insertTile g t) = withinBounds g"
  "withinBounds (removeTile g t) = withinBounds g"
  "withinBounds (moveTile g t p) = withinBounds g"
  "withinBounds (prepareGrid g) = withinBounds g"
  by (simp_all add: withinBounds_def fun_eq_iff)

lemma cells_upd [simp]:
  "cells (insertTile g t) = (cells g)((tile_x t, tile_y t) := Some t)"
  "cells (removeTile g t) = (cells g)((tile_x t, tile_y t) := None)"
  "cells (moveTile g t p) = ((cells g)((tile_x t, tile_y t) := None))(p := Some (updatePosition t p))"
  by (simp_all add: insertTile_def removeTile_def moveTile_def)

lemma cellContent_prepareGrid [simp]:
  "cellContent (prepareGrid g) p = map_option prepareTile (cellContent g p)"
  by (simp add: cellContent_def prepareGrid_def withinBounds_def)

lemma prepareTile_sel [simp]:
  "tile_x (prepareTile t) = tile_x t" "tile_y (prepareTile t) = tile_y t"
  "tile_value (prepareTile t) = tile_value t" "mergedFrom (prepareTile t) = None"
  "previousPosition (prepareTile t) = Some (tile_x t, tile_y t)"
  by (simp_all add: prepareTile_def savePosition_def clearMergedFrom_def)

text \<open>The loop invariant rule for the traversal.\<close>

lemma fold_moveCell_induct:
  assumes ord: "sorted_wrt (\<lambda>a b. \<not> ahead d a b) cs"
    and init: "P cs sm"
    and step: "\<And>c rest sm. \<forall>b \<in> set rest. \<not> ahead d c b \<Longrightarrow> P (c # rest) sm \<Longrightarrow> P rest (moveCell d c sm)"
  shows "P [] (fold (moveCell d) cs sm)"
  using ord init
proof (induction cs arbitrary: sm)
  case Nil
  then show ?case by simp
next
  case (Cons c rest)
  from Cons.prems have "\<forall>b \<in> set rest. \<not> ahead d c b" "sorted_wrt (\<lambda>a b. \<not> ahead d a b) rest"
    by simp_all
  with Cons.prems(2) step have "P rest (moveCell d c sm)" by blast
  with Cons.IH \<open>sorted_wrt _ rest\<close> show ?case by simp
qed

text \<open>The invariant of the traversal for merge sources.\<close>

lemma mergeOnce_step:
  assumes nb: "\<forall>b \<in> set rest. \<not> ahead d c b"
    and inv: "unmergedAt (c # rest) (gm_grid (fst sm)) \<and> mergesFlat (gm_grid (fst sm))"
  shows "unmergedAt rest (gm_grid (fst (moveCell d c sm))) \<and> mergesFlat (gm_grid (fst (moveCell d c sm)))"
proof -
  obtain s m where sm: "sm = (s, m)" by (cases sm)
  define g where "g = gm_grid s"
  from inv sm have un: "unmergedAt (c # rest) g" and fl: "mergesFlat g" by (simp_all add: g_def)
  show ?thesis
  proof (cases "cellContent g c")
    case None
    then have "moveCell d c sm = sm" by (simp add: sm g_def moveCell_None)
    with un fl show ?thesis by (simp add: sm g_def unmergedAt_def)
  next
    case (Some t)
    obtain f n where p: "findFarthestPosition g c d = (f, n)" by (cases "findFarthestPosition g c d")
    from un Some have tn: "mergedFrom t = None" by (simp add: unmergedAt_def)
    show ?thesis
    proof (cases "mergeCandidate (cellContent g n) t")
      case None
      have mc: "moveCell d c sm = (s\<lparr>gm_grid := moveTile g t f\<rparr>, m \<or> f \<noteq> c)"
        using moveCell_slide [of s c t d f n m] Some p None by (simp add: sm g_def)
      have cc: "\<And>q x. cellContent (moveTile g t f) q = Some x \<Longrightarrow> x = updatePosition t f \<or> cellContent g q = Some x"
        by (auto simp: cellContent_def split: if_splits)
      have "unmergedAt rest (moveTile g t f)"
        unfolding unmergedAt_def
      proof (intro ballI allI impI)
        fix q x assume q: "q \<in> set rest" and x: "cellContent (moveTile g t f) q = Some x"
        from cc [OF x] show "mergedFrom x = None"
        proof
          assume "x = updatePosition t f" with tn show ?thesis by simp
        next
          assume "cellContent g q = Some x" with un q show ?thesis by (simp add: unmergedAt_def)
        qed
      qed
      moreover have "mergesFlat (moveTile g t f)"
        unfolding mergesFlat_def
      proof (intro allI impI)
        fix q x a b assume h: "cellContent (moveTile g t f) q = Some x \<and> mergedFrom x = Some (a, b)"
        with cc [of q x] tn have "cellContent g q = Some x" by auto
        with h fl show "mergedFrom a = None \<and> mergedFrom b = None \<and> tile_value a = tile_value b \<and>
        tile_value x = 2 * tile_value a" unfolding mergesFlat_def by blast
      qed
      ultimately show ?thesis by (simp add: mc)
    next
      case (Some u)
      note mg = mergeCandidate_Some [OF Some]
      define g1 where "g1 = removeTile (insertTile g (mergedTile t n u)) t"
      have mc: "fst (moveCell d c sm) = s\<lparr>gm_grid := g1, score := score s + tile_value t * 2,
          won := (won s \<or> tile_value t * 2 = 2048)\<rparr>"
        using moveCell_merge [of s c t d f n u m] \<open>cellContent g c = Some t\<close> p Some
        by (simp add: sm g_def g1_def)
      have cc: "\<And>q x. cellContent g1 q = Some x \<Longrightarrow> (q = n \<and> x = mergedTile t n u) \<or> cellContent g q = Some x"
        by (auto simp: g1_def cellContent_def split: if_splits)
      have nrest: "n \<notin> set rest" using ffp_next_ahead [OF p] nb by blast
      have "unmergedAt rest g1"
        unfolding unmergedAt_def
      proof (intro ballI allI impI)
        fix q x assume q: "q \<in> set rest" and x: "cellContent g1 q = Some x"
        from cc [OF x] q nrest have "cellContent g q = Some x" by auto
        with un q show "mergedFrom x = None" by (simp add: unmergedAt_def)
      qed
      moreover have "mergesFlat g1"
        unfolding mergesFlat_def
      proof (intro allI impI)
        fix q x a b assume h: "cellContent g1 q = Some x \<and> mergedFrom x = Some (a, b)"
        from cc [of q x] h consider "x = mergedTile t n u" | "cellContent g q = Some x" by blast
        then show "mergedFrom a = None \<and> mergedFrom b = None \<and> tile_value a = tile_value b \<and>
        tile_value x = 2 * tile_value a"
        proof cases
          case 1
          with h have "a = updatePosition t n" "b = u" by simp_all
          with 1 tn mg show ?thesis by simp
        next
          case 2
          with h fl show ?thesis unfolding mergesFlat_def by blast
        qed
      qed
      ultimately show ?thesis by (simp add: mc)
    qed
  qed
qed

lemma gm_size_prepareTiles [simp]: "gm_size (prepareTiles s) = gm_size s"
  by (simp add: prepareTiles_def)

lemma gm_grid_prepareTiles [simp]: "gm_grid (prepareTiles s) = prepareGrid (gm_grid s)"
  by (simp add: prepareTiles_def)

lemma resolveMove_mergesFlat: "mergesFlat (gm_grid (fst (resolveMove d s)))"
proof -
  let ?cs = "traversalCells (buildTraversals (gm_size s) (getVector d))"
  let ?P = "\<lambda>ps sm. unmergedAt ps (gm_grid (fst sm)) \<and> mergesFlat (gm_grid (fst sm))"
  have "?P [] (fold (moveCell d) ?cs (prepareTiles s, False))"
  proof (rule fold_moveCell_induct [where P = ?P])
    show "sorted_wrt (\<lambda>a b. \<not> ahead d a b) ?cs" by (rule traversal_order)
    show "?P ?cs (prepareTiles s, False)"
      by (auto simp: unmergedAt_def mergesFlat_def)
    show "\<And>c rest sm. \<forall>b\<in>set rest. \<not> ahead d c b \<Longrightarrow> ?P (c # rest) sm \<Longrightarrow> ?P rest (moveCell d c sm)"
      by (rule mergeOnce_step)
  qed
  then show ?thesis by (simp add: resolveMove_def)
qed

lemma set_positionsOf: "set (positionsOf n) = {p. 0 \<le> fst p \<and> fst p < n \<and> 0 \<le> snd p \<and> snd p < n}"
  by (auto simp: positionsOf_def)

lemma set_positionsOf_grid: "set (positionsOf (grid_size g)) = {p. withinBounds g p}"
  by (auto simp: set_positionsOf withinBounds_def)

lemma distinct_positionsOf: "distinct (positionsOf n)"
  unfolding positionsOf_def
  by (rule distinct_concat) (auto simp: distinct_map inj_on_def)

lemma tilesPlaced_iff:
  "tilesPlaced g \<longleftrightarrow> (\<forall>p t. cellContent g p = Some t \<longrightarrow> tile_pos t = p)"
  by (auto simp: tilesPlaced_def list_all_iff set_positionsOf_grid cellContent_def
           split: option.splits if_splits)

lemma updatePosition_same: "tile_pos t = p \<Longrightarrow> updatePosition t p = t"
  by (cases t) (auto simp: updatePosition_def tile_pos_def)

lemma cellContent_within: "cellContent g p = Some t \<Longrightarrow> withinBounds g p \<and> cells g p = Some t"
  by (simp add: cellContent_def split: if_splits)

lemma cellAvailable_iff: "withinBounds g p \<Longrightarrow> cellAvailable g p \<longleftrightarrow> cells g p = None"
  by (simp add: cellAvailable_def cellOccupied_def cellContent_def)

text \<open>What one iteration does to the game, for a grid whose tiles know their cells.\<close>

lemma moveCell_cases:
  assumes pl: "tilesPlaced (gm_grid s)"
  obtains
    (stay) "moveCell d c (s, m) = (s, m)"
      "cellContent (gm_grid s) c = None \<or>
       (\<exists>t n. cellContent (gm_grid s) c = Some t \<and> findFarthestPosition (gm_grid s) c d = (c, n) \<and>
           mergeCandidate (cellContent (gm_grid s) n) t = None)"
  | (merge) t u f n where
      "cellContent (gm_grid s) c = Some t" "findFarthestPosition (gm_grid s) c d = (f, n)"
      "cellContent (gm_grid s) n = Some u" "ahead d c n"
      "mergedFrom u = None" "tile_value u = tile_value t"
      "moveCell d c (s, m) =
         (s\<lparr>gm_grid := (gm_grid s)\<lparr>cells := (cells (gm_grid s))(n := Some (mergedTile t n u), c := None)\<rparr>,
            score := score s + tile_value t * 2,
            won := (won s \<or> tile_value t * 2 = 2048)\<rparr>, True)"
  | (slide) t f n where
      "cellContent (gm_grid s) c = Some t" "findFarthestPosition (gm_grid s) c d = (f, n)"
      "mergeCandidate (cellContent (gm_grid s) n) t = None"
      "ahead d c f" "withinBounds (gm_grid s) f" "cells (gm_grid s) f = None"
      "moveCell d c (s, m) =
         (s\<lparr>gm_grid := (gm_grid s)\<lparr>cells := (cells (gm_grid s))(c := None, f := Some (updatePosition t f))\<rparr>\<rparr>,
          True)"
proof (cases "cellContent (gm_grid s) c")
  case None
  then show ?thesis using stay moveCell_None by blast
next
  case (Some t)
  define g where "g = gm_grid s"
  obtain f n where p: "findFarthestPosition g c d = (f, n)" by (cases "findFarthestPosition g c d")
  from pl Some have "tile_pos t = c"
    unfolding tilesPlaced_iff by blast
  then have tp: "(tile_x t, tile_y t) = c"
    by (simp add: tile_pos_def)
  show ?thesis
  proof (cases "mergeCandidate (cellContent g n) t")
    case None
    note mc = moveCell_slide [of s c t d f n m, OF Some p [unfolded g_def] None [unfolded g_def]]
    show ?thesis
    proof (cases "f = c")
      case True
      have "moveTile g t c = g"
        using tp cellContent_within [OF Some] updatePosition_same [of t c]
        by (simp add: moveTile_def tile_pos_def g_def fun_upd_idem)
      with mc True have "moveCell d c (s, m) = (s, m)" by (simp add: g_def)
      moreover have "\<exists>t n. cellContent (gm_grid s) c = Some t \<and> findFarthestPosition (gm_grid s) c d = (c, n) \<and>
           mergeCandidate (cellContent (gm_grid s) n) t = None"
        using Some p None True by (auto simp: g_def)
      ultimately show ?thesis using stay by blast
    next
      case False
      with ffp_props [OF p] have fa: "ahead d c f" "withinBounds g f" "cellAvailable g f" by auto
      then have fe: "cells g f = None" by (simp add: cellAvailable_iff)
      have "moveTile g t f = g\<lparr>cells := (cells g)(c := None, f := Some (updatePosition t f))\<rparr>"
        using tp by (simp add: moveTile_def)
      with mc False have "moveCell d c (s, m) =
         (s\<lparr>gm_grid := g\<lparr>cells := (cells g)(c := None, f := Some (updatePosition t f))\<rparr>\<rparr>, True)"
        by (simp add: g_def)
      then show ?thesis using slide [of t f n] Some p None fa(1,2) fe by (simp add: g_def)
    qed
  next
    case (Some u)
    note mg = mergeCandidate_Some [OF Some]
    note mc = moveCell_merge [of s c t d f n u m, OF \<open>cellContent (gm_grid s) c = Some t\<close>
        p [unfolded g_def] Some [unfolded g_def]]
    have "removeTile (insertTile g (mergedTile t n u)) t =
        g\<lparr>cells := (cells g)(n := Some (mergedTile t n u), c := None)\<rparr>"
      using tp by (simp add: removeTile_def insertTile_def)
    with mc have "moveCell d c (s, m) =
         (s\<lparr>gm_grid := g\<lparr>cells := (cells g)(n := Some (mergedTile t n u), c := None)\<rparr>,
            score := score s + tile_value t * 2,
            won := (won s \<or> tile_value t * 2 = 2048)\<rparr>, True)"
      by (simp add: g_def)
    then show ?thesis
      using merge [of t f n u] \<open>cellContent (gm_grid s) c = Some t\<close> p mg ffp_next_ahead [OF p]
      by (simp add: g_def)
  qed
qed

lemma finite_box: "finite {p. withinBounds g p}"
proof -
  have "{p. withinBounds g p} = set (positionsOf (grid_size g))"
    by (simp add: set_positionsOf_grid)
  then show ?thesis by (metis List.finite_set)
qed

lemma sum_update2:
  fixes G :: "'a \<Rightarrow> 'b \<Rightarrow> int"
  assumes A: "finite A" "a \<in> A" "b \<in> A" "a \<noteq> b"
  shows "(\<Sum>p\<in>A. G p ((h(a := x, b := y)) p)) =
         (\<Sum>p\<in>A. G p (h p)) - G a (h a) - G b (h b) + G a x + G b y"
proof -
  let ?B = "A - {a} - {b}"
  have fB: "finite (A - {a})" "b \<in> A - {a}" using A by auto
  have 1: "(\<Sum>p\<in>A. G p (h p)) = G a (h a) + (G b (h b) + (\<Sum>p\<in>?B. G p (h p)))"
    using sum.remove [OF A(1,2), of "\<lambda>p. G p (h p)"] sum.remove [OF fB, of "\<lambda>p. G p (h p)"]
    by simp
  have 2: "(\<Sum>p\<in>A. G p ((h(a := x, b := y)) p)) =
       G a ((h(a := x, b := y)) a) + (G b ((h(a := x, b := y)) b) + (\<Sum>p\<in>?B. G p ((h(a := x, b := y)) p)))"
    using sum.remove [OF A(1,2), of "\<lambda>p. G p ((h(a := x, b := y)) p)"]
      sum.remove [OF fB, of "\<lambda>p. G p ((h(a := x, b := y)) p)"]
    by simp
  have 3: "(\<Sum>p\<in>?B. G p ((h(a := x, b := y)) p)) = (\<Sum>p\<in>?B. G p (h p))"
    by (rule sum.cong) auto
  from 1 2 3 A(4) show ?thesis by simp
qed

lemma mergedSum_set:
  "mergedSum g = (\<Sum>p \<in> {p. withinBounds g p}. mergedValue (cells g p))"
  unfolding mergedSum_def
  by (simp add: sum_list_distinct_conv_sum_set distinct_positionsOf set_positionsOf_grid)

lemma withinBounds_cells_update [simp]: "withinBounds (g\<lparr>cells := h\<rparr>) = withinBounds g"
  by (simp add: withinBounds_def fun_eq_iff)

lemma ahead_dist: "ahead d p q \<Longrightarrow> distToWall d n q < distToWall d n p"
  by (cases d) (auto simp: ahead_def distToWall_def)

lemma dist_pos: "withinBounds g p \<Longrightarrow> 0 < distToWall d (grid_size g) p"
  by (cases d) (auto simp: withinBounds_def distToWall_def)

lemma potential_update2:
  assumes "withinBounds g a" "withinBounds g b" "a \<noteq> b"
  shows "potential d (g\<lparr>cells := (cells g)(a := x, b := y)\<rparr>) =
     potential d g - occWeight d (grid_size g) a (cells g a) - occWeight d (grid_size g) b (cells g b)
       + occWeight d (grid_size g) a x + occWeight d (grid_size g) b y"
proof -
  have a: "a \<in> {p. withinBounds g p}" and b: "b \<in> {p. withinBounds g p}"
    using assms by simp_all
  note u = sum_update2 [OF finite_box a b assms(3), of "occWeight d (grid_size g)" "cells g" x y]
  have "potential d (g\<lparr>cells := (cells g)(a := x, b := y)\<rparr>) =
      (\<Sum>p \<in> {p. withinBounds g p}. occWeight d (grid_size g) p (((cells g)(a := x, b := y)) p))"
    unfolding potential_def by simp
  with u show ?thesis unfolding potential_def by simp
qed

lemma mergedSum_update2:
  assumes "withinBounds g a" "withinBounds g b" "a \<noteq> b"
  shows "mergedSum (g\<lparr>cells := (cells g)(a := x, b := y)\<rparr>) =
     mergedSum g - mergedValue (cells g a) - mergedValue (cells g b) + mergedValue x + mergedValue y"
proof -
  have a: "a \<in> {p. withinBounds g p}" and b: "b \<in> {p. withinBounds g p}"
    using assms by simp_all
  note u = sum_update2 [OF finite_box a b assms(3), of "\<lambda>p. mergedValue" "cells g" x y]
  have "mergedSum (g\<lparr>cells := (cells g)(a := x, b := y)\<rparr>) =
      (\<Sum>p \<in> {p. withinBounds g p}. mergedValue (((cells g)(a := x, b := y)) p))"
    unfolding mergedSum_set by simp
  with u show ?thesis unfolding mergedSum_set by simp
qed

lemma potential_valueAt:
  assumes sz: "grid_size g' = grid_size g" and va: "\<forall>p. valueAt g' p = valueAt g p"
  shows "potential d g' = potential d g"
proof -
  have wb: "withinBounds g' = withinBounds g" using sz by (simp add: withinBounds_def fun_eq_iff)
  have eq: "occWeight d (grid_size g') p (cells g' p) = occWeight d (grid_size g) p (cells g p)"
    if "withinBounds g p" for p
  proof -
    from that va [rule_format, of p] wb
    have "map_option tile_value (cells g' p) = map_option tile_value (cells g p)"
      by (simp add: valueAt_def cellContent_def)
    then have "(cells g' p = None) = (cells g p = None)"
      by (cases "cells g' p"; cases "cells g p") simp_all
    then show ?thesis by (simp add: occWeight_def sz)
  qed
  show ?thesis
    unfolding potential_def wb
  proof (rule sum.cong)
    show "{p. withinBounds g p} = {p. withinBounds g p}" by (rule refl)
    fix p assume "p \<in> {p. withinBounds g p}"
    then show "occWeight d (grid_size g') p (cells g' p) = occWeight d (grid_size g) p (cells g p)"
      using eq by simp
  qed
qed

lemma valueAt_prepareGrid [simp]: "valueAt (prepareGrid g) p = valueAt g p"
  by (cases "cellContent g p") (simp_all add: valueAt_def)

lemma tilesPlaced_prepareGrid: "tilesPlaced g \<Longrightarrow> tilesPlaced (prepareGrid g)"
  by (auto simp: tilesPlaced_iff tile_pos_def)

lemma mergedSum_prepareGrid [simp]: "mergedSum (prepareGrid g) = 0"
proof -
  have "\<And>p. withinBounds g p \<Longrightarrow> mergedValue (cells (prepareGrid g) p) = 0"
    by (auto simp: prepareGrid_def mergedValue_def split: option.splits)
  then show ?thesis unfolding mergedSum_set by simp
qed

lemma tilesPlaced_update2:
  assumes pl: "tilesPlaced g"
    and x: "\<And>t. x = Some t \<Longrightarrow> tile_pos t = a"
    and y: "\<And>t. y = Some t \<Longrightarrow> tile_pos t = b"
  shows "tilesPlaced (g\<lparr>cells := (cells g)(a := x, b := y)\<rparr>)"
  unfolding tilesPlaced_iff
proof (intro allI impI)
  fix p t assume h: "cellContent (g\<lparr>cells := (cells g)(a := x, b := y)\<rparr>) p = Some t"
  show "tile_pos t = p"
  proof (cases "p = b")
    case True
    with h have "y = Some t" by (simp add: cellContent_def split: if_splits)
    with y True show ?thesis by simp
  next
    case False
    show ?thesis
    proof (cases "p = a")
      case True
      with h False have "x = Some t" by (simp add: cellContent_def split: if_splits)
      with x True show ?thesis by simp
    next
      case na: False
      with h False have "cellContent g p = Some t" by (simp add: cellContent_def split: if_splits)
      with pl show ?thesis unfolding tilesPlaced_iff by blast
    qed
  qed
qed

lemma unmergedAt_update2:
  assumes un: "unmergedAt rest g"
    and x: "a \<notin> set rest \<or> (\<forall>t. x = Some t \<longrightarrow> mergedFrom t = None)"
    and y: "b \<notin> set rest \<or> (\<forall>t. y = Some t \<longrightarrow> mergedFrom t = None)"
  shows "unmergedAt rest (g\<lparr>cells := (cells g)(a := x, b := y)\<rparr>)"
  unfolding unmergedAt_def
proof (intro ballI allI impI)
  fix p t assume p: "p \<in> set rest" and h: "cellContent (g\<lparr>cells := (cells g)(a := x, b := y)\<rparr>) p = Some t"
  show "mergedFrom t = None"
  proof (cases "p = b")
    case True
    with h have "y = Some t" by (simp add: cellContent_def split: if_splits)
    with y True p show ?thesis by blast
  next
    case False
    show ?thesis
    proof (cases "p = a")
      case True
      with h False have "x = Some t" by (simp add: cellContent_def split: if_splits)
      with x True p show ?thesis by blast
    next
      case na: False
      with h False have "cellContent g p = Some t" by (simp add: cellContent_def split: if_splits)
      with un p show ?thesis unfolding unmergedAt_def by blast
    qed
  qed
qed

lemma traversalInv_step:
  assumes nb: "\<forall>b \<in> set rest. \<not> ahead d c b"
    and inv: "traversalInv d s0 (c # rest) sm"
  shows "traversalInv d s0 rest (moveCell d c sm)"
proof -
  obtain s m where sm: "sm = (s, m)" by (cases sm)
  define g where "g = gm_grid s"
  from inv have pl: "tilesPlaced g" and un: "unmergedAt (c # rest) g" and fr: "sameFrame s s0"
    and sc: "score s = score s0 + mergedSum g" and wn: "won s0 \<longrightarrow> won s"
    and pot: "potential d g \<le> potential d (gm_grid s0)"
    by (simp_all add: traversalInv_def sm g_def)
  from un have unr: "unmergedAt rest g" by (simp add: unmergedAt_def)
  from pl have pl': "tilesPlaced (gm_grid s)" by (simp add: g_def)
  from pl' show ?thesis
  proof (cases rule: moveCell_cases [where d = d and c = c and m = m])
    case stay
    with inv unr show ?thesis by (simp add: traversalInv_def sm g_def)
  next
    case (merge t u f n)
    define g' where "g' = g\<lparr>cells := (cells g)(n := Some (mergedTile t n u), c := None)\<rparr>"
    from merge(1,3) have wc: "withinBounds g c" "cells g c = Some t" and wn': "withinBounds g n" "cells g n = Some u"
      using cellContent_within by (auto simp: g_def)
    from merge(4) have ne: "n \<noteq> c" using ahead_neq by blast
    from un merge(1) have tn: "mergedFrom t = None" by (simp add: unmergedAt_def g_def)
    have nrest: "n \<notin> set rest" using merge(4) nb by blast
    have 1: "tilesPlaced g'" unfolding g'_def
      by (rule tilesPlaced_update2 [OF pl]) (auto simp: tile_pos_def)
    have 2: "unmergedAt rest g'" unfolding g'_def
      by (rule unmergedAt_update2 [OF unr]) (use nrest in auto)
    have 3: "mergedSum g' = mergedSum g + tile_value t * 2"
      unfolding g'_def using mergedSum_update2 [OF wn'(1) wc(1) ne] wc wn' tn merge(5)
      by (simp add: mergedValue_def)
    have 4: "potential d g' = potential d g - distToWall d (grid_size g) c"
      unfolding g'_def using potential_update2 [OF wn'(1) wc(1) ne] wc wn'
      by (simp add: occWeight_def)
    have 5: "potential d g' < potential d g" using 4 dist_pos [OF wc(1)] by simp
    have "withinBounds g' c \<and> cells g' c = None" using wc by (simp add: g'_def)
    then have 6: "\<exists>p. withinBounds g' p \<and> cells g' p = None" by (rule exI)
    have mc: "moveCell d c sm = (s\<lparr>gm_grid := g', score := score s + tile_value t * 2,
            won := (won s \<or> tile_value t * 2 = 2048)\<rparr>, True)"
      using merge(7) by (simp add: sm g_def g'_def)
    have 7: "grid_size g' = grid_size g" by (simp add: g'_def)
    show ?thesis
      unfolding traversalInv_def mc
      using 1 2 3 5 6 7 fr sc wn pot by (simp add: sameFrame_def g_def)
  next
    case (slide t f n)
    define g' where "g' = g\<lparr>cells := (cells g)(c := None, f := Some (updatePosition t f))\<rparr>"
    from slide(1) have wc: "withinBounds g c" "cells g c = Some t"
      using cellContent_within by (auto simp: g_def)
    from slide(5,6) have wf: "withinBounds g f" "cells g f = None" by (simp_all add: g_def)
    from slide(4) have ne: "c \<noteq> f" using ahead_neq by blast
    from un slide(1) have tn: "mergedFrom t = None" by (simp add: unmergedAt_def g_def)
    have 1: "tilesPlaced g'" unfolding g'_def
      by (rule tilesPlaced_update2 [OF pl]) (auto simp: tile_pos_def)
    have 2: "unmergedAt rest g'" unfolding g'_def
      by (rule unmergedAt_update2 [OF unr]) (use tn in auto)
    have 3: "mergedSum g' = mergedSum g"
      unfolding g'_def using mergedSum_update2 [OF wc(1) wf(1) ne] wc wf tn
      by (simp add: mergedValue_def)
    have 4: "potential d g' = potential d g - distToWall d (grid_size g) c + distToWall d (grid_size g) f"
      unfolding g'_def using potential_update2 [OF wc(1) wf(1) ne] wc wf
      by (simp add: occWeight_def)
    have 5: "potential d g' < potential d g" using 4 ahead_dist [OF slide(4), of "grid_size g"] by simp
    have "withinBounds g' c \<and> cells g' c = None" using wc ne by (simp add: g'_def)
    then have 6: "\<exists>p. withinBounds g' p \<and> cells g' p = None" by (rule exI)
    have mc: "moveCell d c sm = (s\<lparr>gm_grid := g'\<rparr>, True)"
      using slide(7) by (simp add: sm g_def g'_def)
    have 7: "grid_size g' = grid_size g" by (simp add: g'_def)
    show ?thesis
      unfolding traversalInv_def mc
      using 1 2 3 5 6 7 fr sc wn pot by (simp add: sameFrame_def g_def)
  qed
qed

lemma resolveMove_inv:
  assumes pl: "tilesPlaced (gm_grid s)"
  shows "traversalInv d (prepareTiles s) [] (resolveMove d s)"
  unfolding resolveMove_def
proof (rule fold_moveCell_induct [where P = "traversalInv d (prepareTiles s)"])
  show "sorted_wrt (\<lambda>a b. \<not> ahead d a b) (traversalCells (buildTraversals (gm_size s) (getVector d)))"
    by (rule traversal_order)
  show "traversalInv d (prepareTiles s) (traversalCells (buildTraversals (gm_size s) (getVector d)))
     (prepareTiles s, False)"
    using tilesPlaced_prepareGrid [OF pl]
    by (auto simp: traversalInv_def sameFrame_def unmergedAt_def prepareTiles_def)
  show "\<And>c rest sm. \<forall>b\<in>set rest. \<not> ahead d c b \<Longrightarrow> traversalInv d (prepareTiles s) (c # rest) sm \<Longrightarrow>
       traversalInv d (prepareTiles s) rest (moveCell d c sm)"
    by (rule traversalInv_step)
qed

section \<open>Terminated games\<close>

text \<open>
  C10. For a terminated game (\<open>over\<close>, or \<open>won\<close> without \<open>keepPlaying\<close>), \<^verbatim>\<open>move\<close> returns at
  once, for every direction and every random draw, and the whole state of the manager is
  what it was: grid, score, flags, storage and the list of actuator calls.
\<close>

theorem move_terminated_unchanged:
  "isGameTerminated s \<Longrightarrow> move k r d s = Inr s"
  by (simp add: move_def)

theorem move_terminated_unchanged_witness:
  "isGameTerminated ((gameOn (gridOf 4 [((0, 0), 2048)]))\<lparr>won := True\<rparr>) \<and>
   move 0 0 Left ((gameOn (gridOf 4 [((0, 0), 2048)]))\<lparr>won := True\<rparr>) =
     Inr ((gameOn (gridOf 4 [((0, 0), 2048)]))\<lparr>won := True\<rparr>)"
proof -
  have t: "isGameTerminated ((gameOn (gridOf 4 [((0, 0), 2048)]))\<lparr>won := True\<rparr>)"
    by (simp add: isGameTerminated_def gameOn_def)
  from t move_terminated_unchanged [OF t, of 0 0 Left] show ?thesis by simp
qed

section \<open>One merge per tile and move\<close>

text \<open>
  C5. \<^verbatim>\<open>prepareTiles\<close> clears every merge marker before the traversal, so during a move a
  tile carries merge sources exactly when this move has produced it by a merge. After the
  traversal of any game in any direction, the two sources of every merged tile on the grid
  carry no merge sources themselves: no tile produced by a merge has been merged again.
  The sources have equal values and the merged tile has twice that value. In particular
  the row 2, 2, 2 at (0,0), (1,0), (2,0) resolved to the left gives 4 at (0,0) and 2 at
  (1,0) and nothing else, and adds 4 to the score.
\<close>

theorem merge_once_per_move:
  "(\<forall>p t a b. cellContent (gm_grid (fst (resolveMove d s))) p = Some t \<and> mergedFrom t = Some (a, b) \<longrightarrow>
       mergedFrom a = None \<and> mergedFrom b = None \<and> tile_value a = tile_value b \<and>
       tile_value t = 2 * tile_value a) \<and>
   cellValues (gm_grid (fst (resolveMove Left (gameOn (gridOf 4 [((0, 0), 2), ((1, 0), 2), ((2, 0), 2)]))))) =
     [((0, 0), 4), ((1, 0), 2)] \<and>
   score (fst (resolveMove Left (gameOn (gridOf 4 [((0, 0), 2), ((1, 0), 2), ((2, 0), 2)])))) =
     score (gameOn (gridOf 4 [((0, 0), 2), ((1, 0), 2), ((2, 0), 2)])) + 4"
proof (intro conjI)
  show "\<forall>p t a b. cellContent (gm_grid (fst (resolveMove d s))) p = Some t \<and> mergedFrom t = Some (a, b) \<longrightarrow>
       mergedFrom a = None \<and> mergedFrom b = None \<and> tile_value a = tile_value b \<and>
       tile_value t = 2 * tile_value a"
    using resolveMove_mergesFlat [of d s] unfolding mergesFlat_def .
  show "cellValues (gm_grid (fst (resolveMove Left (gameOn (gridOf 4 [((0, 0), 2), ((1, 0), 2), ((2, 0), 2)]))))) =
     [((0, 0), 4), ((1, 0), 2)]"
    by code_simp
  show "score (fst (resolveMove Left (gameOn (gridOf 4 [((0, 0), 2), ((1, 0), 2), ((2, 0), 2)])))) =
     score (gameOn (gridOf 4 [((0, 0), 2), ((1, 0), 2), ((2, 0), 2)])) + 4"
    by code_simp
qed

theorem merge_once_per_move_witness:
  "cellContent (gm_grid (fst (resolveMove Left (gameOn (gridOf 4 [((0, 0), 2), ((1, 0), 2), ((2, 0), 2)]))))) (0, 0) =
     Some (Tile 0 0 4 None (Some (Tile 0 0 2 (Some (1, 0)) None, Tile 0 0 2 (Some (0, 0)) None))) \<and>
   mergedFrom (Tile 0 0 4 None (Some (Tile 0 0 2 (Some (1, 0)) None, Tile 0 0 2 (Some (0, 0)) None))) =
     Some (Tile 0 0 2 (Some (1, 0)) None, Tile 0 0 2 (Some (0, 0)) None) \<and>
   mergedFrom (Tile 0 0 2 (Some (1, 0)) None) = None \<and>
   mergedFrom (Tile 0 0 2 (Some (0, 0)) None) = None \<and>
   tile_value (Tile 0 0 2 (Some (1, 0)) None) = tile_value (Tile 0 0 2 (Some (0, 0)) None) \<and>
   tile_value (Tile 0 0 4 None (Some (Tile 0 0 2 (Some (1, 0)) None, Tile 0 0 2 (Some (0, 0)) None))) =
     2 * tile_value (Tile 0 0 2 (Some (1, 0)) None)"
proof -
  have c: "cellContent (gm_grid (fst (resolveMove Left (gameOn (gridOf 4 [((0, 0), 2), ((1, 0), 2), ((2, 0), 2)]))))) (0, 0) =
     Some (Tile 0 0 4 None (Some (Tile 0 0 2 (Some (1, 0)) None, Tile 0 0 2 (Some (0, 0)) None)))"
    by code_simp
  have m: "mergedFrom (Tile 0 0 4 None (Some (Tile 0 0 2 (Some (1, 0)) None, Tile 0 0 2 (Some (0, 0)) None))) =
     Some (Tile 0 0 2 (Some (1, 0)) None, Tile 0 0 2 (Some (0, 0)) None)"
    by simp
  from merge_once_per_move [THEN conjunct1, rule_format, OF conjI [OF c m]] c m
  show ?thesis by blast
qed

section \<open>When moves are available\<close>

lemma cellsAvailable_iff:
  "cellsAvailable g \<longleftrightarrow> (\<exists>p. withinBounds g p \<and> cells g p = None)"
proof -
  have "set (availableCells g) = {p. withinBounds g p \<and> cells g p = None}"
    by (force simp: availableCells_def eachCell_def set_positionsOf_grid)
  then have "(availableCells g \<noteq> []) = (\<exists>p. withinBounds g p \<and> cells g p = None)"
    by (metis (mono_tags, lifting) Collect_empty_eq set_empty)
  then show ?thesis by (simp add: cellsAvailable_def)
qed

lemma set_availableCells:
  "set (availableCells g) = {p. withinBounds g p \<and> cells g p = None}"
  by (force simp: availableCells_def eachCell_def set_positionsOf_grid)

lemma neighbour_iff:
  "(\<exists>d. q = (fst p + fst (getVector d), snd p + snd (getVector d))) \<longleftrightarrow>
   \<bar>fst p - fst q\<bar> + \<bar>snd p - snd q\<bar> = 1"
proof
  assume "\<exists>d. q = (fst p + fst (getVector d), snd p + snd (getVector d))"
  then obtain d where "q = (fst p + fst (getVector d), snd p + snd (getVector d))" ..
  then show "\<bar>fst p - fst q\<bar> + \<bar>snd p - snd q\<bar> = 1"
    by (cases d) (simp_all add: getVector_def)
next
  assume a: "\<bar>fst p - fst q\<bar> + \<bar>snd p - snd q\<bar> = 1"
  then consider "fst q = fst p \<and> snd q = snd p - 1" | "fst q = fst p + 1 \<and> snd q = snd p"
    | "fst q = fst p \<and> snd q = snd p + 1" | "fst q = fst p - 1 \<and> snd q = snd p"
    by linarith
  then show "\<exists>d. q = (fst p + fst (getVector d), snd p + snd (getVector d))"
  proof cases
    case 1 then show ?thesis by (intro exI [of _ Up]) (simp add: getVector_def prod_eq_iff)
  next
    case 2 then show ?thesis by (intro exI [of _ Right]) (simp add: getVector_def prod_eq_iff)
  next
    case 3 then show ?thesis by (intro exI [of _ Down]) (simp add: getVector_def prod_eq_iff)
  next
    case 4 then show ?thesis by (intro exI [of _ Left]) (simp add: getVector_def prod_eq_iff)
  qed
qed

lemma all_directions: "set [Up, Right, Down, Left] = UNIV"
proof -
  have "d \<in> set [Up, Right, Down, Left]" for d by (cases d) simp_all
  then show ?thesis by blast
qed

lemma tileMatchesAvailable_iff:
  assumes sz: "gm_size s = grid_size (gm_grid s)"
  shows "tileMatchesAvailable s \<longleftrightarrow> adjacentEqualPair (gm_grid s)"
proof
  assume "tileMatchesAvailable s"
  then obtain x y where xy: "case cellContent (gm_grid s) (x, y) of
          None \<Rightarrow> False
        | Some t \<Rightarrow>
            (\<exists>d \<in> set [Up, Right, Down, Left].
               case cellContent (gm_grid s) (x + fst (getVector d), y + snd (getVector d)) of
                 None \<Rightarrow> False
               | Some other \<Rightarrow> tile_value other = tile_value t)"
    unfolding tileMatchesAvailable_def list_ex_iff by blast
  then obtain t where t: "cellContent (gm_grid s) (x, y) = Some t"
    by (cases "cellContent (gm_grid s) (x, y)") simp_all
  with xy obtain d where dd: "case cellContent (gm_grid s) (x + fst (getVector d), y + snd (getVector d)) of
                 None \<Rightarrow> False
               | Some other \<Rightarrow> tile_value other = tile_value t"
    by (simp only: option.case) blast
  then obtain other where
    o: "cellContent (gm_grid s) (x + fst (getVector d), y + snd (getVector d)) = Some other"
    and v: "tile_value other = tile_value t"
    by (cases "cellContent (gm_grid s) (x + fst (getVector d), y + snd (getVector d))") simp_all
  have "\<bar>fst (x, y) - fst (x + fst (getVector d), y + snd (getVector d))\<bar> +
        \<bar>snd (x, y) - snd (x + fst (getVector d), y + snd (getVector d))\<bar> = 1"
    using neighbour_iff [of "(x + fst (getVector d), y + snd (getVector d))" "(x, y)"] by auto
  with t o v show "adjacentEqualPair (gm_grid s)"
    unfolding adjacentEqualPair_def by (metis (no_types, lifting))
next
  assume "adjacentEqualPair (gm_grid s)"
  then obtain p q t u where a: "\<bar>fst p - fst q\<bar> + \<bar>snd p - snd q\<bar> = 1"
    and t: "cellContent (gm_grid s) p = Some t" and u: "cellContent (gm_grid s) q = Some u"
    and v: "tile_value t = tile_value u"
    unfolding adjacentEqualPair_def by blast
  from a obtain d where q: "q = (fst p + fst (getVector d), snd p + snd (getVector d))"
    using neighbour_iff [of q p] by blast
  from t have "withinBounds (gm_grid s) p" using cellContent_within by blast
  then have x: "fst p \<in> set [0..gm_size s - 1]" and y: "snd p \<in> set [0..gm_size s - 1]"
    using sz by (auto simp: withinBounds_def)
  have d: "d \<in> set [Up, Right, Down, Left]" using all_directions by simp
  have inner: "list_ex (\<lambda>d. case cellContent (gm_grid s) (fst p + fst (getVector d), snd p + snd (getVector d)) of
                 None \<Rightarrow> False | Some other \<Rightarrow> tile_value other = tile_value t) [Up, Right, Down, Left]"
    unfolding list_ex_iff using d u v q by (intro bexI [of _ d]) simp_all
  show "tileMatchesAvailable s"
    unfolding tileMatchesAvailable_def list_ex_iff
    using x y t inner by (intro bexI [of _ "fst p"] bexI [of _ "snd p"]) simp_all
qed

text \<open>
  C6. For a manager whose size is the size of its grid (as in every game \<^verbatim>\<open>setup\<close> creates),
  \<^verbatim>\<open>movesAvailable()\<close> is false exactly when no cell within bounds is empty and no two
  occupied cells at distance 1 (horizontally or vertically) hold equal values; and it is
  \<^verbatim>\<open>cellsAvailable()\<close> or the existence of such a pair.
\<close>

theorem movesAvailable_correct:
  assumes "gm_size s = grid_size (gm_grid s)"
  shows "(\<not> movesAvailable s \<longleftrightarrow> boardFull (gm_grid s) \<and> \<not> adjacentEqualPair (gm_grid s)) \<and>
         (movesAvailable s \<longleftrightarrow> cellsAvailable (gm_grid s) \<or> adjacentEqualPair (gm_grid s))"
proof -
  have "cellsAvailable (gm_grid s) \<longleftrightarrow> \<not> boardFull (gm_grid s)"
    by (auto simp: cellsAvailable_iff boardFull_def)
  then show ?thesis
    using tileMatchesAvailable_iff [OF assms] by (auto simp: movesAvailable_def)
qed

theorem movesAvailable_correct_witness:
  "gm_size (gameOn (gridOf 2 [((0, 0), 2), ((0, 1), 4), ((1, 0), 4), ((1, 1), 2)])) =
     grid_size (gm_grid (gameOn (gridOf 2 [((0, 0), 2), ((0, 1), 4), ((1, 0), 4), ((1, 1), 2)]))) \<and>
   \<not> movesAvailable (gameOn (gridOf 2 [((0, 0), 2), ((0, 1), 4), ((1, 0), 4), ((1, 1), 2)])) \<and>
   boardFull (gm_grid (gameOn (gridOf 2 [((0, 0), 2), ((0, 1), 4), ((1, 0), 4), ((1, 1), 2)]))) \<and>
   \<not> adjacentEqualPair (gm_grid (gameOn (gridOf 2 [((0, 0), 2), ((0, 1), 4), ((1, 0), 4), ((1, 1), 2)]))) \<and>
   gm_size (gameOn (gridOf 2 [((0, 0), 2), ((0, 1), 2)])) =
     grid_size (gm_grid (gameOn (gridOf 2 [((0, 0), 2), ((0, 1), 2)]))) \<and>
   movesAvailable (gameOn (gridOf 2 [((0, 0), 2), ((0, 1), 2)])) \<and>
   (cellsAvailable (gm_grid (gameOn (gridOf 2 [((0, 0), 2), ((0, 1), 2)]))) \<or>
    adjacentEqualPair (gm_grid (gameOn (gridOf 2 [((0, 0), 2), ((0, 1), 2)]))))"
proof -
  let ?s = "gameOn (gridOf 2 [((0, 0), 2), ((0, 1), 4), ((1, 0), 4), ((1, 1), 2)])"
  let ?t = "gameOn (gridOf 2 [((0, 0), 2), ((0, 1), 2)])"
  have a: "gm_size ?s = grid_size (gm_grid ?s)" by (simp add: gameOn_def)
  have b: "\<not> movesAvailable ?s" by code_simp
  have c: "gm_size ?t = grid_size (gm_grid ?t)" by (simp add: gameOn_def)
  have d: "movesAvailable ?t" by code_simp
  from movesAvailable_correct [OF a] movesAvailable_correct [OF c] a b c d
  show ?thesis by blast
qed

section \<open>What a move does to the board and the score\<close>

lemma tilesNonneg_iff:
  "tilesNonneg g \<longleftrightarrow> (\<forall>p t. cellContent g p = Some t \<longrightarrow> 0 \<le> tile_value t)"
  by (auto simp: tilesNonneg_def list_all_iff set_positionsOf_grid cellContent_def
           split: option.splits if_splits)

lemma tilesNonneg_update2:
  assumes pl: "tilesNonneg g"
    and x: "\<And>t. x = Some t \<Longrightarrow> 0 \<le> tile_value t"
    and y: "\<And>t. y = Some t \<Longrightarrow> 0 \<le> tile_value t"
  shows "tilesNonneg (g\<lparr>cells := (cells g)(a := x, b := y)\<rparr>)"
  unfolding tilesNonneg_iff
proof (intro allI impI)
  fix p t assume h: "cellContent (g\<lparr>cells := (cells g)(a := x, b := y)\<rparr>) p = Some t"
  show "0 \<le> tile_value t"
  proof (cases "p = b")
    case True
    with h have "y = Some t" by (simp add: cellContent_def split: if_splits)
    with y show ?thesis by simp
  next
    case False
    show ?thesis
    proof (cases "p = a")
      case True
      with h False have "x = Some t" by (simp add: cellContent_def split: if_splits)
      with x show ?thesis by simp
    next
      case na: False
      with h False have "cellContent g p = Some t" by (simp add: cellContent_def split: if_splits)
      with pl show ?thesis unfolding tilesNonneg_iff by blast
    qed
  qed
qed

lemma moveCell_nonneg:
  assumes pl: "tilesPlaced (gm_grid s)" and nn: "tilesNonneg (gm_grid s)"
  shows "tilesNonneg (gm_grid (fst (moveCell d c (s, m))))"
  using pl
proof (cases rule: moveCell_cases [where d = d and c = c and m = m])
  case stay
  with nn show ?thesis by simp
next
  case (merge t u f n)
  from nn merge(1) have "0 \<le> tile_value t" unfolding tilesNonneg_iff by blast
  then have "tilesNonneg ((gm_grid s)\<lparr>cells := (cells (gm_grid s))(n := Some (mergedTile t n u), c := None)\<rparr>)"
    by (intro tilesNonneg_update2 [OF nn]) auto
  with merge(7) show ?thesis by simp
next
  case (slide t f n)
  from nn slide(1) have "0 \<le> tile_value t" unfolding tilesNonneg_iff by blast
  then have "tilesNonneg ((gm_grid s)\<lparr>cells := (cells (gm_grid s))(c := None, f := Some (updatePosition t f))\<rparr>)"
    by (intro tilesNonneg_update2 [OF nn]) auto
  with slide(7) show ?thesis by simp
qed

lemma moveCell_placed:
  assumes pl: "tilesPlaced (gm_grid s)"
  shows "tilesPlaced (gm_grid (fst (moveCell d c (s, m))))"
  using pl
proof (cases rule: moveCell_cases [where d = d and c = c and m = m])
  case stay
  with pl show ?thesis by simp
next
  case (merge t u f n)
  have "tilesPlaced ((gm_grid s)\<lparr>cells := (cells (gm_grid s))(n := Some (mergedTile t n u), c := None)\<rparr>)"
    by (rule tilesPlaced_update2 [OF pl]) (auto simp: tile_pos_def)
  with merge(7) show ?thesis by simp
next
  case (slide t f n)
  have "tilesPlaced ((gm_grid s)\<lparr>cells := (cells (gm_grid s))(c := None, f := Some (updatePosition t f))\<rparr>)"
    by (rule tilesPlaced_update2 [OF pl]) (auto simp: tile_pos_def)
  with slide(7) show ?thesis by simp
qed

lemma fold_moveCell_nonneg:
  "tilesPlaced (gm_grid (fst sm)) \<Longrightarrow> tilesNonneg (gm_grid (fst sm)) \<Longrightarrow>
   tilesNonneg (gm_grid (fst (fold (moveCell d) cs sm)))"
proof (induction cs arbitrary: sm)
  case Nil
  then show ?case by simp
next
  case (Cons c cs)
  obtain s m where sm: "sm = (s, m)" by (cases sm)
  from Cons.prems have "tilesPlaced (gm_grid (fst (moveCell d c sm)))"
    "tilesNonneg (gm_grid (fst (moveCell d c sm)))"
    using moveCell_placed [of s d c m] moveCell_nonneg [of s d c m] by (simp_all add: sm)
  with Cons.IH show ?case by simp
qed

lemma tilesNonneg_prepareGrid: "tilesNonneg g \<Longrightarrow> tilesNonneg (prepareGrid g)"
  by (auto simp: tilesNonneg_iff)

lemma resolveMove_nonneg:
  assumes "tilesPlaced (gm_grid s)" "tilesNonneg (gm_grid s)"
  shows "tilesNonneg (gm_grid (fst (resolveMove d s)))"
  unfolding resolveMove_def
  using assms by (intro fold_moveCell_nonneg) (simp_all add: tilesPlaced_prepareGrid tilesNonneg_prepareGrid)

lemma resolveMove_facts:
  assumes pl: "tilesPlaced (gm_grid s)"
  shows "tilesPlaced (gm_grid (fst (resolveMove d s)))"
    and "score (fst (resolveMove d s)) = score s + mergedSum (gm_grid (fst (resolveMove d s)))"
    and "sameFrame (fst (resolveMove d s)) s"
    and "\<not> snd (resolveMove d s) \<Longrightarrow> fst (resolveMove d s) = prepareTiles s"
    and "snd (resolveMove d s) \<Longrightarrow> cellsAvailable (gm_grid (fst (resolveMove d s)))"
    and "snd (resolveMove d s) \<Longrightarrow>
           potential d (gm_grid (fst (resolveMove d s))) < potential d (prepareGrid (gm_grid s))"
  using resolveMove_inv [OF pl, of d]
  by (simp_all add: traversalInv_def sameFrame_def prepareTiles_def cellsAvailable_iff)

lemma potential_prepareGrid: "potential d (prepareGrid g) = potential d g"
  by (rule potential_valueAt) simp_all

lemma resolveMove_changed:
  assumes pl: "tilesPlaced (gm_grid s)"
  shows "snd (resolveMove d s) \<longleftrightarrow>
         (\<exists>p. valueAt (gm_grid (fst (resolveMove d s))) p \<noteq> valueAt (gm_grid s) p)"
proof
  assume m: "snd (resolveMove d s)"
  show "\<exists>p. valueAt (gm_grid (fst (resolveMove d s))) p \<noteq> valueAt (gm_grid s) p"
  proof (rule ccontr)
    assume "\<not> ?thesis"
    then have eq: "\<forall>p. valueAt (gm_grid (fst (resolveMove d s))) p = valueAt (gm_grid s) p" by blast
    have "grid_size (gm_grid (fst (resolveMove d s))) = grid_size (gm_grid s)"
      using resolveMove_facts(3) [OF pl, of d] by (simp add: sameFrame_def)
    from potential_valueAt [OF this eq, of d] resolveMove_facts(6) [OF pl m]
    show False by (simp add: potential_prepareGrid)
  qed
next
  assume "\<exists>p. valueAt (gm_grid (fst (resolveMove d s))) p \<noteq> valueAt (gm_grid s) p"
  then obtain p where p: "valueAt (gm_grid (fst (resolveMove d s))) p \<noteq> valueAt (gm_grid s) p" ..
  show "snd (resolveMove d s)"
  proof (rule ccontr)
    assume "\<not> snd (resolveMove d s)"
    from resolveMove_facts(4) [OF pl this] p show False by simp
  qed
qed

lemma mergedSum_nonneg:
  assumes nn: "tilesNonneg g"
  shows "0 \<le> mergedSum g"
  unfolding mergedSum_set
proof (rule sum_nonneg)
  fix p assume "p \<in> {p. withinBounds g p}"
  then have w: "withinBounds g p" by simp
  show "0 \<le> mergedValue (cells g p)"
  proof (cases "cells g p")
    case None
    then show ?thesis by (simp add: mergedValue_def)
  next
    case (Some t)
    with w have "cellContent g p = Some t" by (simp add: cellContent_def)
    with nn have "0 \<le> tile_value t" unfolding tilesNonneg_iff by blast
    with Some show ?thesis by (simp add: mergedValue_def)
  qed
qed

lemma addRandomTile_cases:
  obtains (full) "\<not> cellsAvailable (gm_grid s)" "addRandomTile k r s = Inr s"
  | (spawn) p v where "p \<in> set (availableCells (gm_grid s))" "v = 2 \<or> v = 4"
      "addRandomTile k r s = Inr (s\<lparr>gm_grid := insertTile (gm_grid s) (newTile p v)\<rparr>)"
proof (cases "cellsAvailable (gm_grid s)")
  case False
  then show ?thesis using full by (simp add: addRandomTile_def)
next
  case True
  define cs where "cs = availableCells (gm_grid s)"
  from True have ne: "cs \<noteq> []" by (simp add: cellsAvailable_def cs_def)
  then have "cs ! (k mod length cs) \<in> set cs" by simp
  moreover have "addRandomTile k r s =
      Inr (s\<lparr>gm_grid := insertTile (gm_grid s) (newTile (cs ! (k mod length cs)) (if r < 0.9 then 2 else 4))\<rparr>)"
    using True ne by (simp add: addRandomTile_def randomAvailableCell_def cs_def Let_def)
  ultimately show ?thesis using spawn [of "cs ! (k mod length cs)" "if r < 0.9 then 2 else 4"]
    by (simp add: cs_def)
qed

lemma insert_newTile_facts:
  assumes p: "p \<in> set (availableCells g)" and v: "0 \<le> v"
  shows "tilesPlaced g \<Longrightarrow> tilesPlaced (insertTile g (newTile p v))"
    and "tilesNonneg g \<Longrightarrow> tilesNonneg (insertTile g (newTile p v))"
    and "mergedSum (insertTile g (newTile p v)) = mergedSum g"
proof -
  from p have wp: "withinBounds g p" "cells g p = None" by (simp_all add: set_availableCells)
  have cc: "\<And>q t. cellContent (insertTile g (newTile p v)) q = Some t \<Longrightarrow>
      (q = p \<and> t = newTile p v) \<or> cellContent g q = Some t"
    by (auto simp: cellContent_def newTile_def split: if_splits)
  show "tilesPlaced g \<Longrightarrow> tilesPlaced (insertTile g (newTile p v))"
    unfolding tilesPlaced_iff using cc by (fastforce simp: newTile_def tile_pos_def)
  show "tilesNonneg g \<Longrightarrow> tilesNonneg (insertTile g (newTile p v))"
    unfolding tilesNonneg_iff using cc v by (fastforce simp: newTile_def)
  have "\<And>q. mergedValue (cells (insertTile g (newTile p v)) q) = mergedValue (cells g q)"
    using wp by (simp add: mergedValue_def newTile_def)
  then show "mergedSum (insertTile g (newTile p v)) = mergedSum g"
    unfolding mergedSum_set by simp
qed

lemma actuate_fields [simp]:
  "gm_grid (actuate s) = gm_grid s" "score (actuate s) = score s"
  "actuations (actuate s) = \<lparr>shown_grid = gm_grid s, shown_score = score s, shown_over = over s,
      shown_won = won s, shown_bestScore = max (bestScore s) (score s),
      shown_terminated = isGameTerminated s\<rparr> # actuations s"
  by (simp_all add: actuate_def Let_def isGameTerminated_def max_def)

lemma move_cases:
  assumes nt: "\<not> isGameTerminated s" and pl: "tilesPlaced (gm_grid s)"
  obtains (rejected) "\<not> snd (resolveMove d s)" "move k r d s = Inr (prepareTiles s)"
  | (accepted) p v where "snd (resolveMove d s)"
      "p \<in> set (availableCells (gm_grid (fst (resolveMove d s))))" "v = 2 \<or> v = 4"
      "move k r d s = Inr (actuate (settled (spawned (fst (resolveMove d s)) p v)))"
proof (cases "snd (resolveMove d s)")
  case False
  with nt resolveMove_facts(4) [OF pl False] have "move k r d s = Inr (prepareTiles s)"
    by (simp add: move_def split_beta)
  with False show ?thesis by (rule rejected)
next
  case True
  define s1 where "s1 = fst (resolveMove d s)"
  have av: "cellsAvailable (gm_grid s1)" using resolveMove_facts(5) [OF pl True] by (simp add: s1_def)
  show ?thesis
  proof (cases rule: addRandomTile_cases [of s1 k r])
    case full
    with av show ?thesis by simp
  next
    case (spawn p v)
    have "move k r d s = Inr (actuate (settled (spawned s1 p v)))"
      using nt True spawn(3) by (simp add: move_def split_beta s1_def settled_def spawned_def)
    with True spawn(1,2) show ?thesis using accepted [of p v] by (simp add: s1_def)
  qed
qed

lemma move_total: "\<exists>s'. move k r d s = Inr s'"
proof (cases "isGameTerminated s \<or> \<not> snd (resolveMove d s)")
  case True
  then show ?thesis by (auto simp: move_def split_beta)
next
  case False
  then show ?thesis
    by (cases rule: addRandomTile_cases [of "fst (resolveMove d s)" k r])
       (auto simp: move_def split_beta)
qed

lemma settled_fields [simp]:
  "gm_grid (settled s) = gm_grid s" "score (settled s) = score s" "actuations (settled s) = actuations s"
  by (simp_all add: settled_def)

lemma spawned_fields [simp]:
  "gm_grid (spawned s p v) = insertTile (gm_grid s) (newTile p v)" "score (spawned s p v) = score s"
  "actuations (spawned s p v) = actuations s"
  by (simp_all add: spawned_def)

lemma move_step:
  assumes pl: "tilesPlaced (gm_grid s)" and nn: "tilesNonneg (gm_grid s)"
  shows "\<exists>s'. move k r d s = Inr s' \<and> tilesPlaced (gm_grid s') \<and> tilesNonneg (gm_grid s') \<and>
           score s \<le> score s' \<and>
           (\<not> isGameTerminated s \<longrightarrow> score s' = score s + mergedSum (gm_grid s'))"
proof (cases "isGameTerminated s")
  case True
  with pl nn show ?thesis by (simp add: move_def)
next
  case False
  from False pl show ?thesis
  proof (cases rule: move_cases [where d = d and k = k and r = r])
    case rejected
    with pl nn False show ?thesis
      by (simp add: tilesPlaced_prepareGrid tilesNonneg_prepareGrid prepareTiles_def)
  next
    case (accepted p v)
    define s1 where "s1 = fst (resolveMove d s)"
    note f = resolveMove_facts(1,2) [OF pl, of d, folded s1_def]
    have nn1: "tilesNonneg (gm_grid s1)" using resolveMove_nonneg [OF pl nn] by (simp add: s1_def)
    from accepted(3) have v: "0 \<le> v" by auto
    note i = insert_newTile_facts [OF accepted(2) [folded s1_def] v]
    have "score s \<le> score s1" using f(2) mergedSum_nonneg [OF nn1] by simp
    with accepted(4) f i nn1 show ?thesis by (simp add: s1_def [symmetric])
  qed
qed

lemma playMoves_monotone:
  "tilesPlaced (gm_grid s) \<Longrightarrow> tilesNonneg (gm_grid s) \<Longrightarrow>
   \<exists>s'. playMoves ms s = Inr s' \<and> score s \<le> score s'"
proof (induction ms arbitrary: s)
  case Nil
  then show ?case by simp
next
  case (Cons m ms)
  obtain k r d where m: "m = (k, r, d)" by (cases m)
  from move_step [OF Cons.prems, of k r d] obtain s1 where
    s1: "move k r d s = Inr s1" "tilesPlaced (gm_grid s1)" "tilesNonneg (gm_grid s1)" "score s \<le> score s1"
    by blast
  from Cons.IH [OF s1(2,3)] obtain s' where "playMoves ms s1 = Inr s'" "score s1 \<le> score s'" by blast
  with s1 show ?case by (simp add: m)
qed

text \<open>
  C7. In a game whose tiles record their cells and have values that are not negative
  (every tile the game creates has value 2 or 4 or twice the value of a tile), every
  sequence of moves returns and ends with a score at least the score it started with.
  Every single move returns, keeps these two properties of the grid, does not lower the
  score, and, when the game is not terminated, adds to the score exactly \<open>mergedSum\<close> of
  the new grid: the sum of the values of the tiles this move created by merging, which is
  0 when it merged nothing (and for a move that is not accepted).
\<close>

theorem score_monotone:
  assumes "tilesPlaced (gm_grid s)" "tilesNonneg (gm_grid s)"
  shows "(\<exists>s'. playMoves ms s = Inr s' \<and> score s \<le> score s') \<and>
         (\<exists>s'. move k r d s = Inr s' \<and> tilesPlaced (gm_grid s') \<and> tilesNonneg (gm_grid s') \<and>
               score s \<le> score s' \<and>
               (\<not> isGameTerminated s \<longrightarrow> score s' = score s + mergedSum (gm_grid s')))"
  using playMoves_monotone [OF assms] move_step [OF assms] by blast

theorem score_monotone_witness:
  "tilesPlaced (gm_grid (gameOn (gridOf 4 [((0, 0), 2), ((1, 0), 2)]))) \<and>
   tilesNonneg (gm_grid (gameOn (gridOf 4 [((0, 0), 2), ((1, 0), 2)]))) \<and>
   \<not> isGameTerminated (gameOn (gridOf 4 [((0, 0), 2), ((1, 0), 2)])) \<and>
   (\<exists>s'. playMoves [(3, 0, Left), (0, 0, Left)] (gameOn (gridOf 4 [((0, 0), 2), ((1, 0), 2)])) = Inr s' \<and>
         score (gameOn (gridOf 4 [((0, 0), 2), ((1, 0), 2)])) \<le> score s') \<and>
   (\<exists>s'. move 3 0 Left (gameOn (gridOf 4 [((0, 0), 2), ((1, 0), 2)])) = Inr s' \<and>
         score s' = score (gameOn (gridOf 4 [((0, 0), 2), ((1, 0), 2)])) + mergedSum (gm_grid s') \<and>
         mergedSum (gm_grid s') = 4)"
proof -
  let ?s = "gameOn (gridOf 4 [((0, 0), 2), ((1, 0), 2)])"
  have a: "tilesPlaced (gm_grid ?s)" by code_simp
  have b: "tilesNonneg (gm_grid ?s)" by code_simp
  have c: "\<not> isGameTerminated ?s" by code_simp
  have d: "(case move 3 0 Left ?s of Inl e \<Rightarrow> False | Inr s' \<Rightarrow> mergedSum (gm_grid s') = 4)"
    by code_simp
  from score_monotone [OF a b, of "[(3, 0, Left), (0, 0, Left)]" 3 0 Left] a b c d
  show ?thesis by (auto split: sum.splits)
qed

section \<open>The hypotheses hold in every game\<close>

text \<open>
  The theorems about moves and strategies are stated for managers whose size is the size
  of their grid, whose tiles record the cell that holds them, and whose values are not
  negative. A game set up with a new grid has these properties, and every move keeps them.
\<close>

lemma addRandomTile_invariant:
  assumes "gameInvariant s"
  shows "\<exists>s'. addRandomTile k r s = Inr s' \<and> gameInvariant s'"
proof (cases rule: addRandomTile_cases [of s k r])
  case full
  with assms show ?thesis by simp
next
  case (spawn p v)
  from spawn(2) have "0 \<le> v" by auto
  from insert_newTile_facts(1,2) [OF spawn(1) this] assms spawn(3)
  show ?thesis by (simp add: gameInvariant_def)
qed

lemma addStartTiles_invariant:
  "gameInvariant s \<Longrightarrow> \<exists>s'. addStartTiles rs s = Inr s' \<and> gameInvariant s'"
proof (induction rs arbitrary: s)
  case Nil
  then show ?case by simp
next
  case (Cons kr rs)
  obtain k r where kr: "kr = (k, r)" by (cases kr)
  from addRandomTile_invariant [OF Cons.prems, of k r] obtain s1 where
    s1: "addRandomTile k r s = Inr s1" "gameInvariant s1" by blast
  from Cons.IH [OF s1(2)] s1(1) show ?case by (simp add: kr)
qed

lemma actuate_invariant: "gameInvariant (actuate s) = gameInvariant s"
  by (simp add: gameInvariant_def actuate_def Let_def)

lemma emptyGrid_invariant:
  "gameInvariant (s\<lparr>gm_grid := emptyGrid (gm_size s), score := 0, over := False, won := False,
                     keepPlaying := False\<rparr>)"
  by (simp add: gameInvariant_def emptyGrid_def tilesPlaced_iff tilesNonneg_iff cellContent_def)

lemma setupGame_invariant:
  assumes "storedState s = None"
  shows "\<exists>s'. setupGame rs s = Inr s' \<and> gameInvariant s'"
proof -
  from addStartTiles_invariant [OF emptyGrid_invariant, of "[fst rs, snd rs]" s]
  obtain s1 where "addStartTiles [fst rs, snd rs]
      (s\<lparr>gm_grid := emptyGrid (gm_size s), score := 0, over := False, won := False,
         keepPlaying := False\<rparr>) = Inr s1" "gameInvariant s1"
    by blast
  with assms show ?thesis by (simp add: setupGame_def actuate_invariant)
qed

lemma move_invariant:
  assumes "gameInvariant s"
  shows "\<exists>s'. move k r d s = Inr s' \<and> gameInvariant s'"
proof -
  from assms have pl: "tilesPlaced (gm_grid s)" and nn: "tilesNonneg (gm_grid s)"
    and sz: "gm_size s = grid_size (gm_grid s)"
    by (simp_all add: gameInvariant_def)
  from move_step [OF pl nn, of k r d] obtain s' where
    s': "move k r d s = Inr s'" "tilesPlaced (gm_grid s')" "tilesNonneg (gm_grid s')" by blast
  have "gm_size s' = grid_size (gm_grid s')"
  proof (cases "isGameTerminated s")
    case True
    with s'(1) sz show ?thesis by (simp add: move_def)
  next
    case False
    from False pl show ?thesis
    proof (cases rule: move_cases [where d = d and k = k and r = r])
      case rejected
      with s'(1) sz show ?thesis by (auto simp: prepareTiles_def)
    next
      case (accepted p v)
      from resolveMove_facts(3) [OF pl, of d] sz
      have "gm_size (fst (resolveMove d s)) = grid_size (gm_grid (fst (resolveMove d s)))"
        by (simp add: sameFrame_def)
      with accepted(4) s'(1) show ?thesis
        by (auto simp: actuate_def Let_def settled_def spawned_def)
    qed
  qed
  with s' show ?thesis by (auto simp: gameInvariant_def)
qed

lemma playMoves_invariant:
  "gameInvariant s \<Longrightarrow> \<exists>s'. playMoves ms s = Inr s' \<and> gameInvariant s'"
proof (induction ms arbitrary: s)
  case Nil
  then show ?case by simp
next
  case (Cons m ms)
  obtain k r d where m: "m = (k, r, d)" by (cases m)
  from move_invariant [OF Cons.prems, of k r d] obtain s1 where
    "move k r d s = Inr s1" "gameInvariant s1" by blast
  with Cons.IH [of s1] show ?case by (simp add: m)
qed

section \<open>Accepted and rejected moves\<close>

text \<open>
  C4, as the code has it. For a game that is not terminated and whose tiles record their
  cells, the flag \<^verbatim>\<open>moved\<close> of \<^verbatim>\<open>move\<close> is set exactly when the traversal changes what some
  cell shows (its occupancy or its value). When it is set, the move is accepted: a tile of
  value 2 or 4 is inserted on a cell that the traversal left empty, the game-over test
  runs, and the actuator is called once. When it is not set, nothing is spawned, the
  actuator is not called, and score, flags and storage are what they were; the grid is the
  old grid after \<^verbatim>\<open>prepareTiles\<close>: every tile is on its cell with its value, its merge
  sources are cleared and its saved position is its cell. So the state is not exactly
  what it was: these two fields of the tiles change, as the theorem after the witness
  shows on a board reached by a merging move.
\<close>

theorem move_accepted_iff_changed:
  assumes "\<not> isGameTerminated s" "tilesPlaced (gm_grid s)"
  shows "(snd (resolveMove d s) \<longleftrightarrow>
            (\<exists>p. valueAt (gm_grid (fst (resolveMove d s))) p \<noteq> valueAt (gm_grid s) p)) \<and>
         (snd (resolveMove d s) \<longrightarrow>
            (\<exists>p v. p \<in> set (availableCells (gm_grid (fst (resolveMove d s)))) \<and> (v = 2 \<or> v = 4) \<and>
               move k r d s = Inr (actuate (settled (spawned (fst (resolveMove d s)) p v))) \<and>
               tl (actuations (actuate (settled (spawned (fst (resolveMove d s)) p v)))) = actuations s)) \<and>
         (\<not> snd (resolveMove d s) \<longrightarrow>
            move k r d s = Inr (s\<lparr>gm_grid := prepareGrid (gm_grid s)\<rparr>) \<and>
            (\<forall>p. map_option (\<lambda>t. (tile_pos t, tile_value t)) (cellContent (prepareGrid (gm_grid s)) p) =
                 map_option (\<lambda>t. (tile_pos t, tile_value t)) (cellContent (gm_grid s) p)))"
proof (intro conjI impI)
  show "snd (resolveMove d s) \<longleftrightarrow>
            (\<exists>p. valueAt (gm_grid (fst (resolveMove d s))) p \<noteq> valueAt (gm_grid s) p)"
    by (rule resolveMove_changed [OF assms(2)])
next
  assume m: "snd (resolveMove d s)"
  from assms show "\<exists>p v. p \<in> set (availableCells (gm_grid (fst (resolveMove d s)))) \<and> (v = 2 \<or> v = 4) \<and>
               move k r d s = Inr (actuate (settled (spawned (fst (resolveMove d s)) p v))) \<and>
               tl (actuations (actuate (settled (spawned (fst (resolveMove d s)) p v)))) = actuations s"
  proof (cases rule: move_cases [where d = d and k = k and r = r])
    case rejected
    with m show ?thesis by simp
  next
    case (accepted p v)
    have "actuations (fst (resolveMove d s)) = actuations s"
      using resolveMove_facts(3) [OF assms(2), of d] by (simp add: sameFrame_def)
    with accepted show ?thesis by (intro exI [of _ p] exI [of _ v]) simp
  qed
next
  assume m: "\<not> snd (resolveMove d s)"
  from assms show "move k r d s = Inr (s\<lparr>gm_grid := prepareGrid (gm_grid s)\<rparr>)"
  proof (cases rule: move_cases [where d = d and k = k and r = r])
    case rejected
    then show ?thesis by (simp add: prepareTiles_def)
  next
    case (accepted p v)
    with m show ?thesis by simp
  qed
next
  assume "\<not> snd (resolveMove d s)"
  show "\<forall>p. map_option (\<lambda>t. (tile_pos t, tile_value t)) (cellContent (prepareGrid (gm_grid s)) p) =
                 map_option (\<lambda>t. (tile_pos t, tile_value t)) (cellContent (gm_grid s) p)"
    by (simp add: option.map_comp comp_def tile_pos_def)
qed

theorem move_accepted_iff_changed_witness:
  "\<not> isGameTerminated mergedBoard \<and> tilesPlaced (gm_grid mergedBoard) \<and>
   \<not> snd (resolveMove Left mergedBoard) \<and>
   move 0 0 Left mergedBoard = Inr (mergedBoard\<lparr>gm_grid := prepareGrid (gm_grid mergedBoard)\<rparr>) \<and>
   snd (resolveMove Right mergedBoard) \<and>
   (\<exists>p. valueAt (gm_grid (fst (resolveMove Right mergedBoard))) p \<noteq> valueAt (gm_grid mergedBoard) p) \<and>
   (\<exists>p v. p \<in> set (availableCells (gm_grid (fst (resolveMove Right mergedBoard)))) \<and> (v = 2 \<or> v = 4) \<and>
       move 0 0 Right mergedBoard =
         Inr (actuate (settled (spawned (fst (resolveMove Right mergedBoard)) p v))))"
proof -
  have a: "\<not> isGameTerminated mergedBoard" by code_simp
  have b: "tilesPlaced (gm_grid mergedBoard)" by code_simp
  have c: "\<not> snd (resolveMove Left mergedBoard)" by code_simp
  have d: "snd (resolveMove Right mergedBoard)" by code_simp
  from move_accepted_iff_changed [OF a b, of Left 0 0] move_accepted_iff_changed [OF a b, of Right 0 0]
    a b c d
  show ?thesis by blast
qed

theorem rejected_move_changes_tiles:
  "move 3 0 Left (gameOn (gridOf 4 [((0, 0), 2), ((1, 0), 2)])) = Inr mergedBoard \<and>
   \<not> isGameTerminated mergedBoard \<and>
   \<not> snd (resolveMove Left mergedBoard) \<and>
   cellValues (gm_grid (fst (resolveMove Left mergedBoard))) = cellValues (gm_grid mergedBoard) \<and>
   move 0 0 Left mergedBoard \<noteq> Inr mergedBoard"
proof -
  have a: "\<not> isGameTerminated mergedBoard" by code_simp
  have b: "\<not> snd (resolveMove Left mergedBoard)" by code_simp
  have c: "cellValues (gm_grid (fst (resolveMove Left mergedBoard))) = cellValues (gm_grid mergedBoard)"
    by code_simp
  have d: "map_option mergedFrom (cellContent (gm_grid mergedBoard) (0, 0)) =
      Some (Some (Tile 0 0 2 (Some (1, 0)) None, Tile 0 0 2 (Some (0, 0)) None))"
    by code_simp
  have e: "(case move 0 0 Left mergedBoard of Inl e \<Rightarrow> None
      | Inr s' \<Rightarrow> map_option mergedFrom (cellContent (gm_grid s') (0, 0))) = Some None"
    by code_simp
  have f: "move 0 0 Left mergedBoard \<noteq> Inr mergedBoard"
  proof
    assume "move 0 0 Left mergedBoard = Inr mergedBoard"
    with e have "map_option mergedFrom (cellContent (gm_grid mergedBoard) (0, 0)) = Some None" by simp
    with d show False by simp
  qed
  have "move 3 0 Left (gameOn (gridOf 4 [((0, 0), 2), ((1, 0), 2)])) = Inr mergedBoard"
    using move_total [of 3 0 Left "gameOn (gridOf 4 [((0, 0), 2), ((1, 0), 2)])"]
    by (auto simp: mergedBoard_def)
  with a b c f show ?thesis by blast
qed

section \<open>The legality probe and the live game\<close>

lemma tryMove_live: "snd (tryMove s d g) = prepareTiles s"
  by (simp add: tryMove_def Let_def)

lemma NaiveStrategy_step_live: "snd (snd (NaiveStrategy_step d st)) = prepareTiles (snd (snd st))"
  by (simp add: NaiveStrategy_step_def Let_def tryMove_live)

lemma NaiveStrategy_live: "snd (NaiveStrategy_getNextMove s) = prepareTiles (prepareTiles (prepareTiles (prepareTiles s)))"
  by (simp add: NaiveStrategy_getNextMove_def directions_def NaiveStrategy_step_live)

text \<open>
  C1. \<^verbatim>\<open>tryMove\<close> hands the copy to \<^verbatim>\<open>findFarthestPosition\<close>, which ignores it and walks
  over the manager's own grid. With the live row 2, empty, 8 and the copy 2, 4, 8 (the
  live board with a 4 spawned at (1,0), as the chance layer of the searches builds it),
  \<^verbatim>\<open>tryMove\<close> to the left answers true, although resolving that move on the copy moves
  nothing and changes no cell; with the copy's own board as the live one the answer is
  false. So the answer is not a function of the copy and the direction.
\<close>

theorem tryMove_reads_live_grid:
  "fst (tryMove (gameOn (gridOf 4 [((0, 0), 2), ((2, 0), 8)])) Left
         (gridOf 4 [((0, 0), 2), ((1, 0), 4), ((2, 0), 8)])) = True \<and>
   fst (tryMove (gameOn (gridOf 4 [((0, 0), 2), ((1, 0), 4), ((2, 0), 8)])) Left
         (gridOf 4 [((0, 0), 2), ((1, 0), 4), ((2, 0), 8)])) = False \<and>
   snd (resolveMove Left (gameOn (gridOf 4 [((0, 0), 2), ((1, 0), 4), ((2, 0), 8)]))) = False \<and>
   cellValues (gm_grid (fst (resolveMove Left (gameOn (gridOf 4 [((0, 0), 2), ((1, 0), 4), ((2, 0), 8)]))))) =
     cellValues (gridOf 4 [((0, 0), 2), ((1, 0), 4), ((2, 0), 8)]) \<and>
   cellValues (gridWith 4 (gridOf 4 [((0, 0), 2), ((2, 0), 8)]) (1, 0) 4) =
     cellValues (gridOf 4 [((0, 0), 2), ((1, 0), 4), ((2, 0), 8)])"
  by code_simp

text \<open>
  C2. \<^verbatim>\<open>tryMove\<close> calls \<^verbatim>\<open>this.prepareTiles(grid)\<close>, which ignores its argument and
  prepares the tiles of the live grid. After \<^verbatim>\<open>getNextMove\<close> of \<^verbatim>\<open>NaiveStrategy\<close> the manager
  is the old one with its tiles prepared: on the board reached by merging 2 and 2, the
  merged tile has lost its merge sources and the spawned tile has got a saved position.
\<close>

theorem getNextMove_changes_live_tiles:
  "snd (NaiveStrategy_getNextMove s) = prepareTiles (prepareTiles (prepareTiles (prepareTiles s))) \<and>
   map_option mergedFrom (cellContent (gm_grid mergedBoard) (0, 0)) =
     Some (Some (Tile 0 0 2 (Some (1, 0)) None, Tile 0 0 2 (Some (0, 0)) None)) \<and>
   map_option mergedFrom (cellContent (gm_grid (snd (NaiveStrategy_getNextMove mergedBoard))) (0, 0)) =
     Some None \<and>
   map_option previousPosition (cellContent (gm_grid mergedBoard) (1, 0)) = Some None \<and>
   map_option previousPosition (cellContent (gm_grid (snd (NaiveStrategy_getNextMove mergedBoard))) (1, 0)) =
     Some (Some (1, 0))"
proof -
  have "map_option mergedFrom (cellContent (gm_grid mergedBoard) (0, 0)) =
     Some (Some (Tile 0 0 2 (Some (1, 0)) None, Tile 0 0 2 (Some (0, 0)) None))" by code_simp
  moreover have "map_option mergedFrom (cellContent (gm_grid (snd (NaiveStrategy_getNextMove mergedBoard))) (0, 0)) =
     Some None" by code_simp
  moreover have "map_option previousPosition (cellContent (gm_grid mergedBoard) (1, 0)) = Some None"
    by code_simp
  moreover have "map_option previousPosition (cellContent (gm_grid (snd (NaiveStrategy_getNextMove mergedBoard))) (1, 0)) =
     Some (Some (1, 0))" by code_simp
  ultimately show ?thesis using NaiveStrategy_live [of s] by blast
qed

section \<open>The legality probe\<close>

lemma tryMoveCell_or: "tryMoveCell s d g c m = (m \<or> tryMoveCell s d g c False)"
  by (auto simp: tryMoveCell_def Let_def split: option.splits)

lemma fold_tryMoveCell:
  "fold (tryMoveCell s d g) cs m = (m \<or> (\<exists>c \<in> set cs. tryMoveCell s d g c False))"
proof (induction cs arbitrary: m)
  case Nil
  then show ?case by simp
next
  case (Cons c cs)
  show ?case
    using Cons.IH [of "tryMoveCell s d g c m"] tryMoveCell_or [of s d g c m] by auto
qed

lemma tryMoveCell_cong:
  assumes "\<And>p. map_option (\<lambda>t. (tile_value t, mergedFrom t = None)) (cellContent g p) =
               map_option (\<lambda>t. (tile_value t, mergedFrom t = None)) (cellContent g' p)"
  shows "tryMoveCell s d g c m = tryMoveCell s d g' c m"
proof -
  obtain f n where p: "findFarthestPosition (gm_grid s) c d = (f, n)"
    by (cases "findFarthestPosition (gm_grid s) c d")
  have mc: "(mergeCandidate (cellContent g n) t \<noteq> None) = (mergeCandidate (cellContent g' n) t' \<noteq> None)"
    if "tile_value t = tile_value t'" for t t'
    using assms [of n] that
    by (cases "cellContent g n"; cases "cellContent g' n") (auto simp: mergeCandidate_def)
  show ?thesis
  proof (cases "cellContent g c")
    case None
    with assms [of c] have "cellContent g' c = None" by simp
    with None show ?thesis by (simp add: tryMoveCell_def)
  next
    case (Some t)
    with assms [of c] obtain t' where t': "cellContent g' c = Some t'" "tile_value t = tile_value t'"
      by (cases "cellContent g' c") auto
    with Some p mc [OF t'(2)] show ?thesis by (simp add: tryMoveCell_def Let_def)
  qed
qed

lemma moveCell_keeps_moved: "snd (moveCell d c (s, True)) = True"
  by (simp add: moveCell_def Let_def split: option.splits)

lemma fold_moveCell_keeps_moved: "snd sm \<Longrightarrow> snd (fold (moveCell d) cs sm)"
proof (induction cs arbitrary: sm)
  case Nil
  then show ?case by simp
next
  case (Cons c cs)
  obtain s m where "sm = (s, m)" by (cases sm)
  with Cons.prems have "snd (moveCell d c sm)" using moveCell_keeps_moved [of d c s] by simp
  with Cons.IH show ?case by simp
qed

lemma mergeCandidate_SomeI:
  "tile_value u = tile_value t \<Longrightarrow> mergedFrom u = None \<Longrightarrow> mergeCandidate (Some u) t = Some u"
  by (simp add: mergeCandidate_def)

lemma fold_moveCell_moved:
  assumes pl: "tilesPlaced (gm_grid s)"
  shows "snd (fold (moveCell d) cs (s, m)) =
           (m \<or> (\<exists>c \<in> set cs. tryMoveCell s d (gm_grid s) c False))"
proof (induction cs arbitrary: m)
  case Nil
  then show ?case by simp
next
  case (Cons c cs)
  from pl show ?case
  proof (cases rule: moveCell_cases [where d = d and c = c and m = m])
    case stay
    from stay(2) have "\<not> tryMoveCell s d (gm_grid s) c False"
      by (auto simp: tryMoveCell_def Let_def)
    with stay(1) Cons.IH [of m] show ?thesis by simp
  next
    case (merge t u f n)
    have "tryMoveCell s d (gm_grid s) c False"
      using merge(1,2,3) mergeCandidate_SomeI [OF merge(6,5)] by (simp add: tryMoveCell_def Let_def)
    moreover have "snd (fold (moveCell d) cs (moveCell d c (s, m)))"
      by (rule fold_moveCell_keeps_moved) (simp add: merge(7))
    ultimately show ?thesis by simp
  next
    case (slide t f n)
    from slide(4) have "f \<noteq> c" using ahead_neq by blast
    then have "tryMoveCell s d (gm_grid s) c False"
      using slide(1,2,3) by (auto simp: tryMoveCell_def Let_def prod_eq_iff)
    moreover have "snd (fold (moveCell d) cs (moveCell d c (s, m)))"
      by (rule fold_moveCell_keeps_moved) (simp add: slide(7))
    ultimately show ?thesis by simp
  qed
qed

lemma cellContent_copyGrid:
  "n = grid_size g \<Longrightarrow>
   cellContent (copyGrid n g) p =
     map_option (\<lambda>t. newTile (tile_x t, tile_y t) (tile_value t)) (cellContent g p)"
  by (cases "cells g p")
     (simp_all add: copyGrid_def cellContent_def serializeGrid_def withinBounds_def serializeTile_def)

lemma probesLegal_moved:
  assumes sz: "gm_size s = grid_size (gm_grid s)" and pl: "tilesPlaced (gm_grid s)"
  shows "probesLegal s d = snd (resolveMove d s)"
proof -
  let ?cs = "traversalCells (buildTraversals (gm_size s) (getVector d))"
  let ?s' = "prepareTiles s"
  have pl': "tilesPlaced (gm_grid ?s')" using tilesPlaced_prepareGrid [OF pl] by simp
  have eq: "tryMoveCell ?s' d (copyGrid (gm_size s) (gm_grid s)) c False =
            tryMoveCell ?s' d (gm_grid ?s') c False" for c
  proof (rule tryMoveCell_cong)
    fix p
    show "map_option (\<lambda>t. (tile_value t, mergedFrom t = None))
            (cellContent (copyGrid (gm_size s) (gm_grid s)) p) =
          map_option (\<lambda>t. (tile_value t, mergedFrom t = None)) (cellContent (gm_grid ?s') p)"
      using cellContent_copyGrid [OF sz, of p]
      by (cases "cellContent (gm_grid s) p") (simp_all add: newTile_def)
  qed
  have "probesLegal s d = (\<exists>c \<in> set ?cs. tryMoveCell ?s' d (copyGrid (gm_size s) (gm_grid s)) c False)"
    by (simp add: probesLegal_def tryMove_def Let_def fold_tryMoveCell)
  also have "\<dots> = (\<exists>c \<in> set ?cs. tryMoveCell ?s' d (gm_grid ?s') c False)"
    using eq by simp
  also have "\<dots> = snd (fold (moveCell d) ?cs (?s', False))"
    using fold_moveCell_moved [OF pl', of d ?cs False] by simp
  finally show ?thesis by (simp add: resolveMove_def)
qed

lemma probesLegal_iff:
  assumes "gm_size s = grid_size (gm_grid s)" "tilesPlaced (gm_grid s)"
  shows "probesLegal s d \<longleftrightarrow> changesBoard d s"
  using probesLegal_moved [OF assms] resolveMove_changed [OF assms(2)]
  by (simp add: changesBoard_def)

section \<open>The searches\<close>

lemma ext_less_refl [simp]: "ext_less (Finite x) (Finite x) = False"
  by simp

lemma ext_less_minf [simp]: "ext_less a MinusInfinity = False"
  by (cases a) simp_all

lemma AdvancedStrategy_first:
  "AdvancedStrategy_getNextMove depth s = firstLegal (probesLegal s)"
  unfolding AdvancedStrategy_getNextMove_def firstLegal_def directions_def probesLegal_def
  by (simp add: Let_def)

lemma ext_min_not_minf: "a \<noteq> MinusInfinity \<Longrightarrow> b \<noteq> MinusInfinity \<Longrightarrow> ext_min a b \<noteq> MinusInfinity"
  by (simp add: ext_min_def)

lemma ext_scale_not_minf: "a \<noteq> MinusInfinity \<Longrightarrow> ext_scale k a \<noteq> MinusInfinity"
  by (cases a) (simp_all add: ext_scale_def)

lemma minLoop_not_minf:
  assumes rec: "\<And>g a b m l i. fst (rec g a b m l i) \<noteq> MinusInfinity"
  shows "val \<noteq> MinusInfinity \<Longrightarrow> fst (minLoop rec s g late cs val alpha beta i) \<noteq> MinusInfinity"
proof (induction cs arbitrary: val beta i)
  case Nil
  then show ?case by simp
next
  case (Cons c cs)
  define r2 where "r2 = rec (gridWith (gm_size s) g c 2) alpha beta True late i"
  define val2 where "val2 = ext_min val (ext_scale 0.9 (fst r2))"
  define r4 where "r4 = rec (gridWith (gm_size s) g c 4) alpha beta True late (snd r2)"
  define val4 where "val4 = ext_min val2 (ext_scale 0.1 (fst r4))"
  have "val2 \<noteq> MinusInfinity"
    unfolding val2_def r2_def by (intro ext_min_not_minf ext_scale_not_minf Cons.prems rec)
  then have v4: "val4 \<noteq> MinusInfinity"
    unfolding val4_def r4_def by (intro ext_min_not_minf ext_scale_not_minf rec)
  show ?case
    using v4 Cons.IH [OF v4]
    by (simp add: Let_def r2_def [symmetric] val2_def [symmetric] r4_def [symmetric] val4_def [symmetric])
qed

lemma alphaBeta_not_minf:
  "fst (alphaBeta depth rnd s g alpha beta isMax late i) \<noteq> MinusInfinity"
proof (induction depth arbitrary: g alpha beta isMax late i)
  case 0
  then show ?case by simp
next
  case (Suc depth)
  have "fst (minLoop (alphaBeta depth rnd s) s g late cs PlusInfinity alpha beta j) \<noteq> MinusInfinity" for cs j
    by (rule minLoop_not_minf) (use Suc.IH in simp_all)
  then show ?case by (simp add: Let_def)
qed

lemma MasterStrategy_fold:
  assumes "bs = MinusInfinity \<or> legal bm"
    and "\<And>d. legal d = probesLegal s d"
  shows "(let r = fold (MasterStrategy_step depth rnd s) ds (bs, bm, i) in
           (fst r = MinusInfinity \<or> legal (fst (snd r))) \<and>
           (bs \<noteq> MinusInfinity \<longrightarrow> fst r \<noteq> MinusInfinity) \<and>
           ((\<exists>d \<in> set ds. legal d) \<longrightarrow> fst r \<noteq> MinusInfinity) \<and>
           ((\<forall>d \<in> set ds. \<not> legal d) \<longrightarrow> fst r = bs \<and> fst (snd r) = bm))"
  using assms(1)
proof (induction ds arbitrary: bs bm i)
  case Nil
  then show ?case by simp
next
  case (Cons d ds)
  define st where "st = MasterStrategy_step depth rnd s d (bs, bm, i)"
  show ?case
  proof (cases "legal d")
    case False
    then have "st = (bs, bm, i)"
      using assms(2) by (simp add: st_def MasterStrategy_step_def probesLegal_def Let_def)
    with Cons.IH [OF Cons.prems, of i] False show ?thesis
      by (simp add: st_def [symmetric] Let_def)
  next
    case True
    define r where "r = alphaBeta depth rnd s (copyGrid (gm_size s) (gm_grid s)) MinusInfinity PlusInfinity
        False (getMaxTile (gm_grid s) \<ge> 1024) i"
    have rn: "fst r \<noteq> MinusInfinity" unfolding r_def by (rule alphaBeta_not_minf)
    have st: "st = (if ext_less bs (fst r) then (fst r, d, snd r) else (bs, bm, snd r))"
      using True assms(2) by (simp add: st_def MasterStrategy_step_def probesLegal_def Let_def r_def)
    have bsn: "bs \<noteq> MinusInfinity" if "\<not> ext_less bs (fst r)"
      using that rn by (cases bs) simp_all
    obtain bs' bm' i' where st': "st = (bs', bm', i')" by (cases st)
    have inv: "bs' \<noteq> MinusInfinity" "legal bm'"
      using st st' rn bsn True Cons.prems by (auto split: if_splits)
    from Cons.IH [of bs' bm' i'] inv True
    show ?thesis
      by (auto simp: st_def [symmetric] st' Let_def)
  qed
qed

lemma MasterStrategy_legal:
  "((\<exists>d. probesLegal s d) \<longrightarrow> probesLegal s (MasterStrategy_getNextMove depth rnd s)) \<and>
   ((\<forall>d. \<not> probesLegal s d) \<longrightarrow> MasterStrategy_getNextMove depth rnd s = Up)"
proof -
  define r where "r = fold (MasterStrategy_step depth rnd s) directions (MinusInfinity, Up, 0)"
  note f = MasterStrategy_fold [where legal = "probesLegal s" and bs = MinusInfinity and bm = Up
      and ds = directions and s = s and depth = depth and rnd = rnd and i = 0, simplified Let_def, folded r_def]
  have all: "set directions = UNIV" using all_directions by (simp add: directions_def)
  from f all show ?thesis
    unfolding MasterStrategy_getNextMove_def r_def [symmetric] by auto
qed

lemma firstLegal_legal:
  "((\<exists>d. legal d) \<longrightarrow> legal (firstLegal legal)) \<and> ((\<forall>d. \<not> legal d) \<longrightarrow> firstLegal legal = Up)"
proof -
  have all: "set directions = UNIV" using all_directions by (simp add: directions_def)
  show ?thesis
  proof (cases "find legal directions")
    case None
    then have "\<forall>d. \<not> legal d" using all by (auto simp: find_None_iff)
    with None show ?thesis by (simp add: firstLegal_def)
  next
    case (Some d)
    then have "legal d" by (auto simp: find_Some_iff)
    with Some show ?thesis by (auto simp: firstLegal_def)
  qed
qed


section \<open>The chance layer of expectimax\<close>

lemma log2_code [code]:
  "log2 v = (if 0 < v \<and> 2 ^ (floorlog 2 (nat v) - 1) = v then real (floorlog 2 (nat v) - 1)
             else log2_other v)"
proof (cases "0 < v \<and> 2 ^ (floorlog 2 (nat v) - 1) = v")
  case True
  define m where "m = floorlog 2 (nat v) - 1"
  from True have "v = 2 ^ m" by (simp add: m_def)
  then have "log2 v = log 2 (2 ^ m)" by (simp add: log2_def)
  also have "\<dots> = real m" by simp
  finally show ?thesis using True by (simp add: m_def)
next
  case False
  then show ?thesis by (auto simp: log2_def log2_other_def)
qed

lemma fold_score_count:
  "fold (\<lambda>c (score, count). (score + f c, count + 1)) cs (a, n) =
     (a + sum_list (map f cs), n + length cs)"
  by (induction cs arbitrary: a n) (simp_all add: add.assoc)

lemma distinct_availableCells: "distinct (availableCells g)"
proof -
  have "availableCells g = filter (\<lambda>p. cells g p = None) (positionsOf (grid_size g))"
    by (simp add: availableCells_def eachCell_def filter_map comp_def)
  then show ?thesis by (simp add: distinct_positionsOf)
qed

lemma valueAt_gridWith:
  assumes "n = grid_size g"
  shows "valueAt (gridWith n g c v) p =
           (if withinBounds g p then (if p = c then Some v else valueAt g p) else None)"
proof -
  have wb: "withinBounds (copyGrid n g) p = withinBounds g p"
    using assms by (simp add: withinBounds_def copyGrid_def)
  have "cellContent (gridWith n g c v) p =
      (if withinBounds g p then (if p = c then Some (newTile c v) else cellContent (copyGrid n g) p)
       else None)"
    using wb by (simp add: gridWith_def cellContent_def newTile_def)
  then show ?thesis
    using cellContent_copyGrid [OF assms, of p]
    by (simp add: valueAt_def newTile_def option.map_comp comp_def)
qed

lemma expectimax_chance:
  assumes "availableCells g \<noteq> []"
  shows "expectimax (Suc depth) s g False =
        (\<Sum>c\<leftarrow>availableCells g.
            0.9 * expectimax depth s (gridWith (gm_size s) g c 2) True
          + 0.1 * expectimax depth s (gridWith (gm_size s) g c 4) True)
        / real (length (availableCells g))"
proof -
  have "fold (\<lambda>c (score, count).
           (score + 0.9 * expectimax depth s (gridWith (gm_size s) g c 2) True
                  + 0.1 * expectimax depth s (gridWith (gm_size s) g c 4) True, count + 1))
         (availableCells g) (0, 0::nat) =
       (0 + (\<Sum>c\<leftarrow>availableCells g.
            0.9 * expectimax depth s (gridWith (gm_size s) g c 2) True
          + 0.1 * expectimax depth s (gridWith (gm_size s) g c 4) True), 0 + length (availableCells g))"
    using fold_score_count [of "\<lambda>c. 0.9 * expectimax depth s (gridWith (gm_size s) g c 2) True
          + 0.1 * expectimax depth s (gridWith (gm_size s) g c 4) True" "availableCells g" 0 0]
    by (simp add: add.assoc)
  with assms show ?thesis by (simp add: Let_def)
qed

lemma expectimax_move:
  "expectimax (Suc depth) s g True =
     (let values = map (\<lambda>d. expectimax depth s (copyGrid (gm_size s) g) False)
                     (filter (\<lambda>d. fst (tryMove s d (copyGrid (gm_size s) g))) directions)
      in if values = [] then AdvancedStrategy_evaluatePosition g else Max (set values))"
  by (cases "fst (tryMove s Up (copyGrid (gm_size s) g))";
      cases "fst (tryMove s Right (copyGrid (gm_size s) g))";
      cases "fst (tryMove s Down (copyGrid (gm_size s) g))";
      cases "fst (tryMove s Left (copyGrid (gm_size s) g))")
    (simp_all add: Let_def directions_def ext_max_def)

text \<open>
  C8. At depth greater than 0 and on a grid with an empty cell, the chance layer of
  \<^verbatim>\<open>expectimax\<close> (its loop adds to \<^verbatim>\<open>score\<close> and counts in \<^verbatim>\<open>count\<close>) returns the sum, over the
  empty cells, of 0.9 times the move-layer value one level less deep of the grid with a 2
  on that cell plus 0.1 times that of the grid with a 4 on it, divided by the number of
  empty cells. The cells are all the empty cells within bounds, each once, and the grid
  with the spawned tile shows the new value on that cell and the old board elsewhere
  (when the manager's size is the grid's). On a grid with no empty cell the layer returns
  the static evaluation, at every depth.

  The values that are averaged are fixed as well: at depth 0 either layer is the static
  evaluation \<^verbatim>\<open>evaluatePosition\<close>, so that one level above the leaves the chance layer is
  the average of 0.9 and 0.1 times static evaluations; and a move layer at depth greater
  than 0 is the largest chance-layer value, one level less deep, over the directions for
  which \<^verbatim>\<open>tryMove\<close> returns true, each taken on the copy that was handed to \<^verbatim>\<open>tryMove\<close>, or
  the static evaluation when there is no such direction. Together the conjuncts determine
  \<^verbatim>\<open>expectimax\<close> on every input. Numbers are reals here: the rounding of the floating-point
  sums of the source is not modelled.
\<close>

theorem expectimax_chance_layer:
  "(availableCells g \<noteq> [] \<longrightarrow>
      expectimax (Suc depth) s g False =
        (\<Sum>c\<leftarrow>availableCells g.
            0.9 * expectimax depth s (gridWith (gm_size s) g c 2) True
          + 0.1 * expectimax depth s (gridWith (gm_size s) g c 4) True)
        / real (length (availableCells g))) \<and>
   (availableCells g = [] \<longrightarrow> expectimax depth' s g False = AdvancedStrategy_evaluatePosition g) \<and>
   distinct (availableCells g) \<and>
   set (availableCells g) = {p. withinBounds g p \<and> cells g p = None} \<and>
   (gm_size s = grid_size g \<longrightarrow>
      (\<forall>c v p. valueAt (gridWith (gm_size s) g c v) p =
         (if withinBounds g p then (if p = c then Some v else valueAt g p) else None))) \<and>
   expectimax 0 s g isMax = AdvancedStrategy_evaluatePosition g \<and>
   (availableCells g \<noteq> [] \<longrightarrow>
      expectimax (Suc 0) s g False =
        (\<Sum>c\<leftarrow>availableCells g.
            0.9 * AdvancedStrategy_evaluatePosition (gridWith (gm_size s) g c 2)
          + 0.1 * AdvancedStrategy_evaluatePosition (gridWith (gm_size s) g c 4))
        / real (length (availableCells g))) \<and>
   expectimax (Suc depth) s g True =
     (let values = map (\<lambda>d. expectimax depth s (copyGrid (gm_size s) g) False)
                     (filter (\<lambda>d. fst (tryMove s d (copyGrid (gm_size s) g))) directions)
      in if values = [] then AdvancedStrategy_evaluatePosition g else Max (set values))"
proof (intro conjI impI allI)
  assume "availableCells g \<noteq> []"
  then show "expectimax (Suc depth) s g False =
        (\<Sum>c\<leftarrow>availableCells g.
            0.9 * expectimax depth s (gridWith (gm_size s) g c 2) True
          + 0.1 * expectimax depth s (gridWith (gm_size s) g c 4) True)
        / real (length (availableCells g))"
    by (rule expectimax_chance)
next
  assume "availableCells g = []"
  then show "expectimax depth' s g False = AdvancedStrategy_evaluatePosition g"
    by (cases depth') simp_all
next
  show "distinct (availableCells g)" by (rule distinct_availableCells)
next
  show "set (availableCells g) = {p. withinBounds g p \<and> cells g p = None}"
    by (rule set_availableCells)
next
  fix c v p assume "gm_size s = grid_size g"
  then show "valueAt (gridWith (gm_size s) g c v) p =
         (if withinBounds g p then (if p = c then Some v else valueAt g p) else None)"
    by (rule valueAt_gridWith)
next
  show "expectimax 0 s g isMax = AdvancedStrategy_evaluatePosition g" by simp
next
  assume ne: "availableCells g \<noteq> []"
  show "expectimax (Suc 0) s g False =
        (\<Sum>c\<leftarrow>availableCells g.
            0.9 * AdvancedStrategy_evaluatePosition (gridWith (gm_size s) g c 2)
          + 0.1 * AdvancedStrategy_evaluatePosition (gridWith (gm_size s) g c 4))
        / real (length (availableCells g))"
    using expectimax_chance [OF ne, where depth = 0 and s = s] by (simp only: expectimax.simps(1))
next
  show "expectimax (Suc depth) s g True =
     (let values = map (\<lambda>d. expectimax depth s (copyGrid (gm_size s) g) False)
                     (filter (\<lambda>d. fst (tryMove s d (copyGrid (gm_size s) g))) directions)
      in if values = [] then AdvancedStrategy_evaluatePosition g else Max (set values))"
    by (rule expectimax_move)
qed


theorem expectimax_chance_layer_witness:
  "availableCells exampleBoard = [(1, 3), (2, 3), (3, 3)] \<and>
   expectimax (Suc 0) (gameOn exampleBoard) exampleBoard False = 53195 \<and>
   expectimax (Suc (Suc 0)) (gameOn exampleBoard) exampleBoard False = 53195 \<and>
   expectimax (Suc 0) (gameOn exampleBoard) exampleBoard True = 65060 \<and>
   expectimax 0 (gameOn exampleBoard) exampleBoard True = 65060 \<and>
   gm_size (gameOn exampleBoard) = grid_size exampleBoard \<and>
   valueAt (gridWith (gm_size (gameOn exampleBoard)) exampleBoard (2, 3) 4) (2, 3) = Some 4 \<and>
   valueAt (gridWith (gm_size (gameOn exampleBoard)) exampleBoard (2, 3) 4) (0, 0) = Some 64 \<and>
   valueAt (gridWith (gm_size (gameOn exampleBoard)) exampleBoard (2, 3) 4) (1, 3) = None \<and>
   availableCells fullBoard = [] \<and>
   expectimax 3 (gameOn fullBoard) fullBoard False = 29010"
proof -
  let ?g = exampleBoard
  let ?s = "gameOn exampleBoard"
  let ?E = AdvancedStrategy_evaluatePosition
  have n: "gm_size ?s = 4" "grid_size ?g = 4" by code_simp+
  have a: "availableCells ?g = [(1, 3), (2, 3), (3, 3)]" by code_simp
  have e: "?E (gridWith 4 ?g (1, 3) 2) = 53210" "?E (gridWith 4 ?g (1, 3) 4) = 52940"
    "?E (gridWith 4 ?g (2, 3) 2) = 53230" "?E (gridWith 4 ?g (2, 3) 4) = 53060"
    "?E (gridWith 4 ?g (3, 3) 2) = 53210" "?E (gridWith 4 ?g (3, 3) 4) = 53000"
    by code_simp+
  have m: "expectimax (Suc 0) ?s (gridWith 4 ?g (1, 3) 2) True = 53210"
    "expectimax (Suc 0) ?s (gridWith 4 ?g (1, 3) 4) True = 52940"
    "expectimax (Suc 0) ?s (gridWith 4 ?g (2, 3) 2) True = 53230"
    "expectimax (Suc 0) ?s (gridWith 4 ?g (2, 3) 4) True = 53060"
    "expectimax (Suc 0) ?s (gridWith 4 ?g (3, 3) 2) True = 53210"
    "expectimax (Suc 0) ?s (gridWith 4 ?g (3, 3) 4) True = 53000"
    by code_simp+
  have t: "\<not> fst (tryMove ?s Up (copyGrid 4 ?g))" "fst (tryMove ?s Right (copyGrid 4 ?g))"
    "fst (tryMove ?s Down (copyGrid 4 ?g))" "\<not> fst (tryMove ?s Left (copyGrid 4 ?g))"
    by code_simp+
  have c: "expectimax 0 ?s (copyGrid 4 ?g) False = 65060" "?E ?g = 65060" by code_simp+
  have v: "withinBounds ?g (2, 3)" "withinBounds ?g (0, 0)" "withinBounds ?g (1, 3)"
    "valueAt ?g (0, 0) = Some 64" "valueAt ?g (1, 3) = None"
    by code_simp+
  have f: "availableCells fullBoard = []" "?E fullBoard = 29010" by code_simp+
  note th = expectimax_chance_layer [where g = ?g and s = ?s]
  from th [where depth = 0] a n e have 1: "expectimax (Suc 0) ?s ?g False = 53195"
    by (simp del: expectimax.simps)
  from th [where depth = "Suc 0"] a n m have 2: "expectimax (Suc (Suc 0)) ?s ?g False = 53195"
    by (simp del: expectimax.simps)
  from th [where depth = 0] n t c have 3: "expectimax (Suc 0) ?s ?g True = 65060"
    by (simp add: directions_def del: expectimax.simps)
  from th [where isMax = True] c have 4: "expectimax 0 ?s ?g True = 65060"
    by (simp del: expectimax.simps)
  from th n v have 5: "valueAt (gridWith (gm_size ?s) ?g (2, 3) 4) (2, 3) = Some 4"
    "valueAt (gridWith (gm_size ?s) ?g (2, 3) 4) (0, 0) = Some 64"
    "valueAt (gridWith (gm_size ?s) ?g (2, 3) 4) (1, 3) = None"
    by (simp_all del: expectimax.simps)
  from expectimax_chance_layer [where g = fullBoard and s = "gameOn fullBoard" and depth' = 3] f
  have 6: "expectimax 3 (gameOn fullBoard) fullBoard False = 29010"
    by (simp del: expectimax.simps)
  from a 1 2 3 4 5 6 f n show ?thesis by (simp del: expectimax.simps)
qed

section \<open>What the searches return\<close>

text \<open>
  C9. \<^verbatim>\<open>getNextMove\<close> of \<^verbatim>\<open>AdvancedStrategy\<close> (expectimax) and of \<^verbatim>\<open>MasterStrategy\<close>
  (alpha-beta) are total functions of the manager (and of the random source): they return
  a direction for every game, every search depth and every outcome of the sampling. For a
  manager whose size is its grid's and whose tiles record their cells: when no direction
  changes the board both return the default 0 (up); when some direction changes the
  board, each returns a direction that changes the board.
\<close>

theorem getNextMove_returns_legal:
  assumes "gm_size s = grid_size (gm_grid s)" "tilesPlaced (gm_grid s)"
  shows "AdvancedStrategy_getNextMove depthA s \<in> set directions \<and>
         MasterStrategy_getNextMove depthM rnd s \<in> set directions \<and>
         ((\<forall>d. \<not> changesBoard d s) \<longrightarrow>
            AdvancedStrategy_getNextMove depthA s = Up \<and> MasterStrategy_getNextMove depthM rnd s = Up) \<and>
         ((\<exists>d. changesBoard d s) \<longrightarrow>
            changesBoard (AdvancedStrategy_getNextMove depthA s) s \<and>
            changesBoard (MasterStrategy_getNextMove depthM rnd s) s)"
proof -
  have all: "set directions = UNIV" using all_directions by (simp add: directions_def)
  note eq = probesLegal_iff [OF assms]
  from firstLegal_legal [of "probesLegal s"] MasterStrategy_legal [of s depthM rnd] all
  show ?thesis
    unfolding AdvancedStrategy_first eq by simp
qed

theorem getNextMove_returns_legal_witness:
  "gm_size (gameOn (gridOf 4 [((1, 3), 2)])) = grid_size (gm_grid (gameOn (gridOf 4 [((1, 3), 2)]))) \<and>
   tilesPlaced (gm_grid (gameOn (gridOf 4 [((1, 3), 2)]))) \<and>
   changesBoard Up (gameOn (gridOf 4 [((1, 3), 2)])) \<and>
   changesBoard (AdvancedStrategy_getNextMove AdvancedStrategy_SEARCH_DEPTH (gameOn (gridOf 4 [((1, 3), 2)])))
     (gameOn (gridOf 4 [((1, 3), 2)])) \<and>
   changesBoard (MasterStrategy_getNextMove MasterStrategy_SEARCH_DEPTH (\<lambda>i cs. cs) (gameOn (gridOf 4 [((1, 3), 2)])))
     (gameOn (gridOf 4 [((1, 3), 2)])) \<and>
   gm_size (gameOn (emptyGrid 4)) = grid_size (gm_grid (gameOn (emptyGrid 4))) \<and>
   tilesPlaced (gm_grid (gameOn (emptyGrid 4))) \<and>
   AdvancedStrategy_getNextMove AdvancedStrategy_SEARCH_DEPTH (gameOn (emptyGrid 4)) = Up \<and>
   MasterStrategy_getNextMove MasterStrategy_SEARCH_DEPTH (\<lambda>i cs. cs) (gameOn (emptyGrid 4)) = Up"
proof -
  let ?s = "gameOn (gridOf 4 [((1, 3), 2)])"
  let ?e = "gameOn (emptyGrid 4)"
  have a: "gm_size ?s = grid_size (gm_grid ?s)" by (simp add: gameOn_def)
  have b: "tilesPlaced (gm_grid ?s)" by code_simp
  have c: "probesLegal ?s Up" by code_simp
  have a': "gm_size ?e = grid_size (gm_grid ?e)" by (simp add: gameOn_def)
  have b': "tilesPlaced (gm_grid ?e)" by code_simp
  have c': "\<not> probesLegal ?e Up" "\<not> probesLegal ?e Right" "\<not> probesLegal ?e Down" "\<not> probesLegal ?e Left"
    by code_simp+
  have d: "changesBoard Up ?s" using c probesLegal_iff [OF a b] by simp
  have "\<not> probesLegal ?e d" for d using c' by (cases d) simp_all
  then have d': "\<forall>d. \<not> changesBoard d ?e" using probesLegal_iff [OF a' b'] by simp
  from getNextMove_returns_legal [OF a b, of AdvancedStrategy_SEARCH_DEPTH
      MasterStrategy_SEARCH_DEPTH "\<lambda>i cs. cs"]
    getNextMove_returns_legal [OF a' b', of AdvancedStrategy_SEARCH_DEPTH
      MasterStrategy_SEARCH_DEPTH "\<lambda>i cs. cs"] a b d a' b' d'
  show ?thesis by blast
qed

section \<open>The probe and the prepared tiles; the sampled chance layer\<close>

lemma findFarthestPosition_cong:
  "withinBounds g' = withinBounds g \<Longrightarrow> cellAvailable g' = cellAvailable g \<Longrightarrow>
   findFarthestPosition g' p d = findFarthestPosition g p d"
proof (induction g p d rule: findFarthestPosition.induct)
  case (1 g previous d)
  define cell where "cell = (fst previous + fst (getVector d), snd previous + snd (getVector d))"
  have u: "findFarthestPosition g previous d =
     (if withinBounds g cell \<and> cellAvailable g cell then findFarthestPosition g cell d
      else (previous, cell))"
    unfolding cell_def by (rule ffp_unfold)
  have u': "findFarthestPosition g' previous d =
     (if withinBounds g cell \<and> cellAvailable g cell then findFarthestPosition g' cell d
      else (previous, cell))"
    unfolding cell_def "1.prems" [symmetric] by (rule ffp_unfold)
  show ?case
  proof (cases "withinBounds g cell \<and> cellAvailable g cell")
    case True
    have "findFarthestPosition g' cell d = findFarthestPosition g cell d"
      using "1.IH" [of cell] True "1.prems" unfolding cell_def by blast
    with True u u' show ?thesis by simp
  next
    case False
    with u u' show ?thesis by simp
  qed
qed

lemma cellAvailable_prepareGrid: "cellAvailable (prepareGrid g) = cellAvailable g"
  by (simp add: cellAvailable_def cellOccupied_def fun_eq_iff)

lemma tryMoveCell_prepared: "tryMoveCell (prepareTiles s) d g c m = tryMoveCell s d g c m"
proof -
  have "findFarthestPosition (gm_grid (prepareTiles s)) c d = findFarthestPosition (gm_grid s) c d"
    using findFarthestPosition_cong [of "prepareGrid (gm_grid s)" "gm_grid s" c d]
    by (simp add: cellAvailable_prepareGrid)
  then show ?thesis
    by (cases "cellContent g c") (simp_all only: tryMoveCell_def option.case)
qed

lemma tryMove_prepared: "fst (tryMove (prepareTiles s) d g) = fst (tryMove s d g)"
proof -
  have "tryMoveCell (prepareTiles (prepareTiles s)) d g = tryMoveCell (prepareTiles s) d g"
    by (simp add: fun_eq_iff tryMoveCell_prepared)
  then show ?thesis by (simp add: tryMove_def Let_def)
qed

lemma tryMove_after_tryMove: "fst (tryMove (snd (tryMove s d' g')) d g) = fst (tryMove s d g)"
  by (simp add: tryMove_live tryMove_prepared)





section \<open>Alpha-beta with a sampling that is the same at every call\<close>











section \<open>Alpha-beta against expectimax\<close>




end
